theory Spec2Isabelle
  imports Complex_Main "HOL-Library.Word" "HOL-Library.Monad_Syntax"
begin

unbundle bit_operations_syntax

section \<open>The timer engine (gtimer.c)\<close>

subsection \<open>Data model\<close>

text \<open>
  Pointers are addresses; address \<open>0\<close> is the null pointer. A \<open>GTimer\<close> is the struct of
  gtimer.h. Its tick fields have the width of \<open>systemticks_t\<close>, which the platform fixes;
  the width is the type parameter \<open>'w\<close>, so unsigned tick arithmetic is arithmetic on
  \<open>'w word\<close> and wraps at \<open>2 ^ LENGTH('w)\<close>. The fields \<open>when\<close> and \<open>next\<close>
  of the struct are written \<open>when'\<close> and \<open>next'\<close> here.
\<close>

type_synonym addr = nat

record (overloaded) ('w::len) GTimer =
  fn :: nat
  param :: nat
  when' :: "'w word"
  period :: "'w word"
  flags :: "16 word"
  next' :: addr
  prev :: addr

definition GTIMER_FLG_PERIODIC :: "16 word" where
  "GTIMER_FLG_PERIODIC = 0x0001"

definition GTIMER_FLG_INFINITE :: "16 word" where
  "GTIMER_FLG_INFINITE = 0x0002"

definition GTIMER_FLG_JABBED :: "16 word" where
  "GTIMER_FLG_JABBED = 0x0004"

definition GTIMER_FLG_SCHEDULED :: "16 word" where
  "GTIMER_FLG_SCHEDULED = 0x0008"

definition TIME_IMMEDIATE :: "'w::len word" where
  "TIME_IMMEDIATE = 0"

definition TIME_INFINITE :: "'w::len word" where
  "TIME_INFINITE = - 1"

text \<open>
  The file-static state of gtimer.c: the list head, the next timeout, the time of the last
  scan, the worker thread's handle and the count of the semaphore \<open>waitsem\<close>. The timer
  records are the caller's storage; the store \<open>timers\<close> maps the address of each record
  the caller owns to its contents.
\<close>

record (overloaded) ('w::len) gtimer_state =
  timers :: "addr \<rightharpoonup> 'w GTimer"
  pTimerHead :: addr
  nxtTimeout :: "'w word"
  lastTime :: "'w word"
  hThread :: addr
  waitsem :: int

text \<open>
  Modelled from the spec: \<open>gfxSemSignal\<close> (the semaphores are declared only, their
  implementation is not among the sources). A semaphore is a counter with a limit; a
  signal increments the counter unless it has reached the limit. \<open>waitsem\<close> is created by
  \<open>gfxSemInit(&waitsem, 0, 1)\<close>, so its limit is 1.
\<close>

definition gfxSemSignal :: "int \<Rightarrow> int" where
  "gfxSemSignal cnt = (if cnt < 1 then cnt + 1 else cnt)"

definition BUMP_BUMP :: "'w::len gtimer_state \<Rightarrow> 'w gtimer_state" where
  "BUMP_BUMP s = s\<lparr>waitsem := gfxSemSignal (waitsem s)\<rparr>"

text \<open>
  Reading and writing through a pointer. Dereferencing the null pointer, or an address
  where the caller keeps no record, has no defined result: the operation yields \<open>None\<close>.
\<close>

definition deref :: "'w::len gtimer_state \<Rightarrow> addr \<Rightarrow> 'w GTimer option" where
  "deref s p = (if p = 0 then None else timers s p)"

definition modify ::
  "addr \<Rightarrow> ('w::len GTimer \<Rightarrow> 'w GTimer) \<Rightarrow> 'w gtimer_state \<Rightarrow> 'w gtimer_state option" where
  "modify p f s =
     (case deref s p of
        None \<Rightarrow> None
      | Some t \<Rightarrow> Some (s\<lparr>timers := (timers s)(p \<mapsto> f t)\<rparr>))"

subsection \<open>The due test and the scan of one record\<close>

text \<open>The macro \<open>TimeIsWithin(x, start, end)\<close>, on unsigned ticks.\<close>

definition TimeIsWithin :: "'w::len word \<Rightarrow> 'w word \<Rightarrow> 'w word \<Rightarrow> bool" where
  "TimeIsWithin x start end' \<longleftrightarrow>
     (end' \<ge> start \<and> x \<ge> start \<and> x \<le> end') \<or> (end' < start \<and> (x \<ge> start \<or> x \<le> end'))"

text \<open>The test \<open>Has this timer expired or been jabbed?\<close> of the scan loop.\<close>

definition timerIsDue :: "'w::len GTimer \<Rightarrow> 'w word \<Rightarrow> 'w word \<Rightarrow> bool" where
  "timerIsDue t lastT tm \<longleftrightarrow>
     flags t AND GTIMER_FLG_JABBED \<noteq> 0 \<or>
     (\<not> (flags t AND GTIMER_FLG_INFINITE \<noteq> 0) \<and> TimeIsWithin (when' t) lastT tm)"

text \<open>The assignment \<open>pt->when += ((tm + pt->period - pt->when) / pt->period) * pt->period\<close>.\<close>

definition nextWhen :: "'w::len word \<Rightarrow> 'w word \<Rightarrow> 'w word \<Rightarrow> 'w word" where
  "nextWhen tm per w = w + ((tm + per - w) div per) * per"

text \<open>
  The body of the scan loop for the record \<open>pt\<close>, at the scan time \<open>tm\<close>. A due record is
  re-armed (periodic) or unlinked (one-shot), the next timeout is reset, and the scan
  leaves the loop to call the callback \<open>fn(param)\<close>: the result \<open>Fired\<close> carries the state
  and the saved callback. A record that is not due lowers the next timeout and the loop
  goes on with \<open>pt->next\<close>: the result \<open>NotDue\<close>.
\<close>

datatype 's scan_step =
  Fired 's nat nat
| NotDue 's addr

definition scanTimer ::
  "'w::len word \<Rightarrow> addr \<Rightarrow> 'w gtimer_state \<Rightarrow> 'w gtimer_state scan_step option" where
  "scanTimer tm pt s = do {
     t \<leftarrow> deref s pt;
     if timerIsDue t (lastTime s) tm then do {
       s \<leftarrow> (if flags t AND GTIMER_FLG_PERIODIC \<noteq> 0 \<and> period t \<noteq> TIME_IMMEDIATE then do {
               s \<leftarrow> (if \<not> (flags t AND GTIMER_FLG_INFINITE \<noteq> 0)
                     then modify pt (\<lambda>t. t\<lparr>when' := nextWhen tm (period t) (when' t)\<rparr>) s
                     else Some s);
               modify pt (\<lambda>t. t\<lparr>flags := flags t AND NOT GTIMER_FLG_JABBED\<rparr>) s
             } else do {
               s \<leftarrow> (if next' t = prev t then Some (s\<lparr>pTimerHead := 0\<rparr>)
                     else do {
                       s \<leftarrow> modify (next' t) (\<lambda>n. n\<lparr>prev := prev t\<rparr>) s;
                       t \<leftarrow> deref s pt;
                       s \<leftarrow> modify (prev t) (\<lambda>n. n\<lparr>next' := next' t\<rparr>) s;
                       if pTimerHead s = pt then do {
                         t \<leftarrow> deref s pt;
                         Some (s\<lparr>pTimerHead := next' t\<rparr>)
                       } else Some s
                     });
               modify pt (\<lambda>t. t\<lparr>flags := 0\<rparr>) s
             });
       t \<leftarrow> deref s pt;
       Some (Fired (s\<lparr>nxtTimeout := TIME_INFINITE\<rparr>) (fn t) (param t))
     } else do {
       let s = (if \<not> (flags t AND GTIMER_FLG_INFINITE \<noteq> 0) \<and> when' t - tm < nxtTimeout s
                then s\<lparr>nxtTimeout := when' t - tm\<rparr> else s);
       Some (NotDue s (next' t))
     }
   }"

text \<open>
  One scan pass, from the label \<open>restartTimerChecks\<close> to the first callback or to the end
  of the list: the \<open>do ... while (pt != pTimerHead)\<close> loop may not return (on a list that
  never leads back to the head), so it is a partial function; \<open>None\<close> also stands for a
  dereference with no defined result. A pass that finds nothing due records the scan time.
\<close>

partial_function (option) scanLoop ::
  "'w::len word \<Rightarrow> addr \<Rightarrow> 'w gtimer_state \<Rightarrow> ('w gtimer_state \<times> (nat \<times> nat) option) option" where
  "scanLoop tm pt s =
     (case scanTimer tm pt s of
        None \<Rightarrow> None
      | Some (Fired s' f p) \<Rightarrow> Some (s', Some (f, p))
      | Some (NotDue s' pt') \<Rightarrow>
          if pt' \<noteq> pTimerHead s' then scanLoop tm pt' s' else Some (s', None))"

definition scanPass ::
  "'w::len word \<Rightarrow> 'w gtimer_state \<Rightarrow> ('w gtimer_state \<times> (nat \<times> nat) option) option" where
  "scanPass tm s =
     (let s = s\<lparr>nxtTimeout := TIME_INFINITE\<rparr> in
      case (if pTimerHead s \<noteq> 0 then scanLoop tm (pTimerHead s) s else Some (s, None)) of
        None \<Rightarrow> None
      | Some (s', Some cb) \<Rightarrow> Some (s', Some cb)
      | Some (s', None) \<Rightarrow> Some (s'\<lparr>lastTime := tm\<rparr>, None))"

subsection \<open>The public operations\<close>

definition gtimerInit :: "addr \<Rightarrow> 'w::len gtimer_state \<Rightarrow> 'w gtimer_state option" where
  "gtimerInit pt s = modify pt (\<lambda>t. t\<lparr>flags := 0\<rparr>) s"

text \<open>
  \<open>gtimerStart\<close>, in the order of its source: the start of the worker thread, the
  cancellation of a record that is already scheduled (\<open>startCancel\<close>), the set-up of the
  timer structure (\<open>startSetup\<close>), the insertion at the end of the queue (\<open>startAppend\<close>)
  and the bump of the worker. The calls into the platform are arguments: \<open>newThread\<close> is the handle
  that \<open>gfxThreadCreate\<close> returns if the worker thread has to be started, \<open>msToTicks\<close> is
  \<open>gfxMillisecondsToTicks\<close> and \<open>now\<close> is the value of \<open>gfxSystemTicks()\<close>. The mutex is
  entered at the start and left at the end of every operation; calls are modelled one
  after the other, so it does not appear in the state.
\<close>

definition startCancel :: "addr \<Rightarrow> 'w::len gtimer_state \<Rightarrow> 'w gtimer_state option" where
  "startCancel pt s = do {
     t \<leftarrow> deref s pt;
     if flags t AND GTIMER_FLG_SCHEDULED \<noteq> 0 then
       (if next' t = prev t then Some (s\<lparr>pTimerHead := 0\<rparr>)
        else do {
          s \<leftarrow> modify (next' t) (\<lambda>n. n\<lparr>prev := prev t\<rparr>) s;
          t \<leftarrow> deref s pt;
          s \<leftarrow> modify (prev t) (\<lambda>n. n\<lparr>next' := next' t\<rparr>) s;
          if pTimerHead s = pt then do {
            t \<leftarrow> deref s pt;
            Some (s\<lparr>pTimerHead := next' t\<rparr>)
          } else Some s
        })
     else Some s
   }"

definition startSetup ::
  "('w::len word \<Rightarrow> 'w word) \<Rightarrow> 'w word \<Rightarrow>
   addr \<Rightarrow> nat \<Rightarrow> nat \<Rightarrow> bool \<Rightarrow> 'w word \<Rightarrow> 'w gtimer_state \<Rightarrow> 'w gtimer_state option" where
  "startSetup msToTicks now pt fn' param' periodic millisec s = do {
     s \<leftarrow> modify pt (\<lambda>t. t\<lparr>fn := fn', param := param', flags := GTIMER_FLG_SCHEDULED\<rparr>) s;
     s \<leftarrow> (if periodic then modify pt (\<lambda>t. t\<lparr>flags := flags t OR GTIMER_FLG_PERIODIC\<rparr>) s
           else Some s);
     if millisec = TIME_INFINITE
     then modify pt (\<lambda>t. t\<lparr>flags := flags t OR GTIMER_FLG_INFINITE, period := TIME_INFINITE\<rparr>) s
     else modify pt (\<lambda>t. t\<lparr>period := msToTicks millisec, when' := now + msToTicks millisec\<rparr>) s
   }"

definition startAppend :: "addr \<Rightarrow> 'w::len gtimer_state \<Rightarrow> 'w gtimer_state option" where
  "startAppend pt s =
     (if pTimerHead s \<noteq> 0 then do {
        s \<leftarrow> modify pt (\<lambda>t. t\<lparr>next' := pTimerHead s\<rparr>) s;
        h \<leftarrow> deref s (pTimerHead s);
        s \<leftarrow> modify pt (\<lambda>t. t\<lparr>prev := prev h\<rparr>) s;
        t \<leftarrow> deref s pt;
        s \<leftarrow> modify (prev t) (\<lambda>n. n\<lparr>next' := pt\<rparr>) s;
        t \<leftarrow> deref s pt;
        modify (next' t) (\<lambda>n. n\<lparr>prev := pt\<rparr>) s
      } else do {
        s \<leftarrow> modify pt (\<lambda>t. t\<lparr>prev := pt\<rparr>) (s\<lparr>pTimerHead := pt\<rparr>);
        modify pt (\<lambda>t. t\<lparr>next' := pt\<rparr>) s
      })"

definition gtimerStart ::
  "addr \<Rightarrow> ('w::len word \<Rightarrow> 'w word) \<Rightarrow> 'w word \<Rightarrow>
   addr \<Rightarrow> nat \<Rightarrow> nat \<Rightarrow> bool \<Rightarrow> 'w word \<Rightarrow> 'w gtimer_state \<Rightarrow> 'w gtimer_state option" where
  "gtimerStart newThread msToTicks now pt fn' param' periodic millisec s = do {
     let s = (if hThread s = 0 then s\<lparr>hThread := newThread\<rparr> else s);
     s \<leftarrow> startCancel pt s;
     s \<leftarrow> startSetup msToTicks now pt fn' param' periodic millisec s;
     s \<leftarrow> startAppend pt s;
     t \<leftarrow> deref s pt;
     Some (if \<not> (flags t AND GTIMER_FLG_INFINITE \<noteq> 0) then BUMP_BUMP s else s)
   }"

definition gtimerStop :: "addr \<Rightarrow> 'w::len gtimer_state \<Rightarrow> 'w gtimer_state option" where
  "gtimerStop pt s = do {
     t \<leftarrow> deref s pt;
     if flags t AND GTIMER_FLG_SCHEDULED \<noteq> 0 then do {
       s \<leftarrow> (if next' t = pt then Some (s\<lparr>pTimerHead := 0\<rparr>)
             else do {
               s \<leftarrow> modify (next' t) (\<lambda>n. n\<lparr>prev := prev t\<rparr>) s;
               t \<leftarrow> deref s pt;
               s \<leftarrow> modify (prev t) (\<lambda>n. n\<lparr>next' := next' t\<rparr>) s;
               if pTimerHead s = pt then do {
                 t \<leftarrow> deref s pt;
                 Some (s\<lparr>pTimerHead := next' t\<rparr>)
               } else Some s
             });
       modify pt (\<lambda>t. t\<lparr>flags := 0\<rparr>) s
     } else Some s
   }"

definition gtimerIsActive :: "addr \<Rightarrow> 'w::len gtimer_state \<Rightarrow> bool option" where
  "gtimerIsActive pt s = do {
     t \<leftarrow> deref s pt;
     Some (if flags t AND GTIMER_FLG_SCHEDULED \<noteq> 0 then True else False)
   }"

definition gtimerJab :: "addr \<Rightarrow> 'w::len gtimer_state \<Rightarrow> 'w gtimer_state option" where
  "gtimerJab pt s = do {
     s \<leftarrow> modify pt (\<lambda>t. t\<lparr>flags := flags t OR GTIMER_FLG_JABBED\<rparr>) s;
     Some (BUMP_BUMP s)
   }"

text \<open>The state before any call: the static initialisers of gtimer.c and \<open>_gtimerInit\<close>.\<close>

definition gtimer_initial :: "(addr \<rightharpoonup> 'w::len GTimer) \<Rightarrow> 'w gtimer_state" where
  "gtimer_initial recs =
     \<lparr>timers = recs, pTimerHead = 0, nxtTimeout = TIME_INFINITE, lastTime = 0,
      hThread = 0, waitsem = 0\<rparr>"

text \<open>
  The update of the wake time in the words of the specification,
  \<open>when += period * ceil((now + period - when) / period)\<close>: the quotient is the exact
  quotient of the tick values and \<open>ceil\<close> rounds it up. It is stated to be compared with
  \<open>nextWhen\<close>, which is the assignment of the source.
\<close>

definition spec_nextWhen :: "'w::len word \<Rightarrow> 'w word \<Rightarrow> 'w word \<Rightarrow> 'w word" where
  "spec_nextWhen now per w =
     w + per * word_of_int \<lceil>(real (unat now) + real (unat per) - real (unat w)) / real (unat per)\<rceil>"

text \<open>
  A periodic record with a period of 10 ticks, scheduled and due at tick 0, alone in the
  list of a 32-bit engine that last scanned at tick 0.
\<close>

definition tickRecord :: "32 GTimer" where
  "tickRecord = \<lparr>fn = 7, param = 0, when' = 0, period = 10, flags = 0x0009, next' = 1, prev = 1\<rparr>"

definition tickState :: "32 gtimer_state" where
  "tickState = \<lparr>timers = [1 \<mapsto> tickRecord], pTimerHead = 1, nxtTimeout = - 1, lastTime = 0,
                hThread = 1, waitsem = 0\<rparr>"

text \<open>The flags of the record at an address, if the caller keeps a record there.\<close>

definition flagsAt :: "'w::len gtimer_state \<Rightarrow> addr \<Rightarrow> 16 word option" where
  "flagsAt s p = map_option flags (deref s p)"

text \<open>A record as \<open>gtimerInit\<close> leaves it, and a 32-bit engine before its first call.\<close>

definition idleRecord :: "32 GTimer" where
  "idleRecord = \<lparr>fn = 0, param = 0, when' = 0, period = 0, flags = 0, next' = 0, prev = 0\<rparr>"

text \<open>An infinite one-shot record that has been jabbed.\<close>

definition jabbedRecord :: "32 GTimer" where
  "jabbedRecord = \<lparr>fn = 7, param = 0, when' = 0, period = - 1, flags = 0x000E, next' = 16, prev = 16\<rparr>"

subsection \<open>The circular list as a list of addresses\<close>

text \<open>
  The pairs of neighbours of a circular list: each element with its successor, the last
  with the first.
\<close>

definition ringPairs :: "addr list \<Rightarrow> (addr \<times> addr) list" where
  "ringPairs xs = zip xs (rotate1 xs)"

text \<open>\<open>link s a b\<close>: in the store, \<open>a->next\<close> is \<open>b\<close> and \<open>b->prev\<close> is \<open>a\<close>.\<close>

definition link :: "'w::len gtimer_state \<Rightarrow> addr \<Rightarrow> addr \<Rightarrow> bool" where
  "link s a b =
     (case deref s a of
        None \<Rightarrow> False
      | Some ta \<Rightarrow> (case deref s b of None \<Rightarrow> False | Some tb \<Rightarrow> next' ta = b \<and> prev tb = a))"

definition scheduled :: "'w::len gtimer_state \<Rightarrow> addr \<Rightarrow> bool" where
  "scheduled s p = (case flagsAt s p of None \<Rightarrow> False | Some f \<Rightarrow> f AND GTIMER_FLG_SCHEDULED \<noteq> 0)"

text \<open>
  The invariant of the data model: the records \<open>xs\<close>, in order from the head, form the
  circular doubly-linked list (the list is empty and the head null, or the head is the
  first record and the \<open>next\<close> and \<open>prev\<close> links lead around \<open>xs\<close> in both directions),
  and a record is in the list if and only if its \<open>GTIMER_FLG_SCHEDULED\<close> flag is set.
\<close>

definition timerRing :: "'w::len gtimer_state \<Rightarrow> addr list \<Rightarrow> bool" where
  "timerRing s xs \<longleftrightarrow>
     distinct xs \<and>
     pTimerHead s = (case xs of [] \<Rightarrow> 0 | h # _ \<Rightarrow> h) \<and>
     (\<forall>(a, b) \<in> set (ringPairs xs). link s a b) \<and>
     (\<forall>p. scheduled s p \<longleftrightarrow> p \<in> set xs)"

text \<open>
  The records reachable in the list: from the head along \<open>next\<close> until the head comes
  again, visiting at most \<open>n\<close> records.
\<close>

fun walk :: "nat \<Rightarrow> 'w::len gtimer_state \<Rightarrow> addr \<Rightarrow> addr list" where
  "walk 0 s p = []"
| "walk (Suc n) s p =
     (case deref s p of
        None \<Rightarrow> []
      | Some t \<Rightarrow> p # (if next' t = pTimerHead s then [] else walk n s (next' t)))"

definition listedTimers :: "nat \<Rightarrow> 'w::len gtimer_state \<Rightarrow> addr list" where
  "listedTimers n s = (if pTimerHead s = 0 then [] else walk n s (pTimerHead s))"

text \<open>
  Three records at the addresses 16, 32 and 48 of a 32-bit engine. \<open>startTwo\<close> starts the
  first two, one-shot with a delay of 100 ms at tick 0 (one tick per millisecond), from the
  state before any call; \<open>rearmFirst\<close> then starts the first one again. \<open>ringState\<close> and
  \<open>orphanState\<close> are the states these calls return.
\<close>

definition startTwo :: "32 gtimer_state option" where
  "startTwo = do {
     s \<leftarrow> gtimerStart 9 (\<lambda>ms. ms) 0 16 7 0 False 100
            (gtimer_initial [16 \<mapsto> idleRecord, 32 \<mapsto> idleRecord, 48 \<mapsto> idleRecord]);
     gtimerStart 9 (\<lambda>ms. ms) 0 32 7 0 False 100 s
   }"

definition rearmFirst :: "32 gtimer_state option" where
  "rearmFirst = do {
     s \<leftarrow> startTwo;
     gtimerStart 9 (\<lambda>ms. ms) 0 16 7 0 False 100 s
   }"

definition ringState :: "32 gtimer_state" where
  "ringState =
     \<lparr>timers = [16 \<mapsto> \<lparr>fn = 7, param = 0, when' = 100, period = 100, flags = 8, next' = 32, prev = 32\<rparr>,
                32 \<mapsto> \<lparr>fn = 7, param = 0, when' = 100, period = 100, flags = 8, next' = 16, prev = 16\<rparr>,
                48 \<mapsto> idleRecord],
      pTimerHead = 16, nxtTimeout = - 1, lastTime = 0, hThread = 9, waitsem = 1\<rparr>"

definition orphanState :: "32 gtimer_state" where
  "orphanState =
     \<lparr>timers = [16 \<mapsto> \<lparr>fn = 7, param = 0, when' = 100, period = 100, flags = 8, next' = 16, prev = 16\<rparr>,
                32 \<mapsto> \<lparr>fn = 7, param = 0, when' = 100, period = 100, flags = 8, next' = 16, prev = 16\<rparr>,
                48 \<mapsto> idleRecord],
      pTimerHead = 16, nxtTimeout = - 1, lastTime = 0, hThread = 9, waitsem = 1\<rparr>"

text \<open>
  The calls start(16), start(32), start(16) of \<open>rearmFirst\<close>, followed by stop(16),
  start(48), start(16), stop(32), start(32). \<open>staleState\<close> is the state these calls
  return and \<open>staleStopped\<close> the state that \<open>gtimerStop\<close> on the record at 16 returns
  from it.
\<close>

definition staleLinks :: "32 gtimer_state option" where
  "staleLinks = do {
     s \<leftarrow> rearmFirst;
     s \<leftarrow> gtimerStop 16 s;
     s \<leftarrow> gtimerStart 9 (\<lambda>ms. ms) 0 48 7 0 False 100 s;
     s \<leftarrow> gtimerStart 9 (\<lambda>ms. ms) 0 16 7 0 False 100 s;
     s \<leftarrow> gtimerStop 32 s;
     gtimerStart 9 (\<lambda>ms. ms) 0 32 7 0 False 100 s
   }"

definition staleState :: "32 gtimer_state" where
  "staleState =
     \<lparr>timers = [16 \<mapsto> \<lparr>fn = 7, param = 0, when' = 100, period = 100, flags = 8, next' = 32, prev = 16\<rparr>,
                32 \<mapsto> \<lparr>fn = 7, param = 0, when' = 100, period = 100, flags = 8, next' = 48, prev = 16\<rparr>,
                48 \<mapsto> \<lparr>fn = 7, param = 0, when' = 100, period = 100, flags = 8, next' = 16, prev = 32\<rparr>],
      pTimerHead = 48, nxtTimeout = - 1, lastTime = 0, hThread = 9, waitsem = 1\<rparr>"

definition staleStopped :: "32 gtimer_state" where
  "staleStopped =
     \<lparr>timers = [16 \<mapsto> \<lparr>fn = 7, param = 0, when' = 100, period = 100, flags = 0, next' = 32, prev = 16\<rparr>,
                32 \<mapsto> \<lparr>fn = 7, param = 0, when' = 100, period = 100, flags = 8, next' = 48, prev = 16\<rparr>,
                48 \<mapsto> \<lparr>fn = 7, param = 0, when' = 100, period = 100, flags = 8, next' = 16, prev = 32\<rparr>],
      pTimerHead = 48, nxtTimeout = - 1, lastTime = 0, hThread = 9, waitsem = 1\<rparr>"

section \<open>The cooperative scheduler (the threads of gos)\<close>

subsection \<open>Thread code and thread blocks\<close>

text \<open>
  A thread's code is modelled by what it asks of the scheduler: each constructor is one
  call of the scheduler's interface, with the code that runs when the call returns (given
  the value returned). \<open>Return r\<close> is the return of the thread function with the value
  \<open>r\<close>. A \<open>jmp_buf\<close> holds the point where a thread goes on when it is resumed, that is,
  a piece of thread code; two such points lie inside the scheduler itself: \<open>InWait\<close> is
  the context saved by the \<open>gfxYield\<close> inside the loop of \<open>gfxThreadWait\<close>, and
  \<open>Entry\<close> is the context saved by \<open>_setjmp(t->cxt)\<close> in \<open>gfxThreadCreate\<close>, where a
  new thread starts. A \<open>threadreturn_t\<close> and a \<open>void *\<close> are 32-bit values; the casts
  between them in \<open>gfxThreadExit\<close> and \<open>gfxThreadWait\<close> keep the value.
\<close>

type_synonym threadreturn_t = "32 word"

datatype prog =
  Return threadreturn_t
| Yield prog
| Exit threadreturn_t
| Create addr nat int "32 word \<Rightarrow> prog" "32 word" "addr \<Rightarrow> prog"
| Wait addr "threadreturn_t \<Rightarrow> prog"
| Me "addr \<Rightarrow> prog"
| InWait addr "threadreturn_t \<Rightarrow> prog"
| Entry

text \<open>
  Modelled from the spec: the struct \<open>thread\<close> (its declaration is not among the sources),
  the thread control block at the start of a thread's stack area. It holds the saved
  context, the function and its argument, which becomes the result once the thread has
  finished, the size and the flags; the fields are named as the functions use them
  (\<open>t->size\<close>, \<open>t->flags\<close>, \<open>t->fn\<close>, \<open>t->param\<close>, \<open>t->cxt\<close>). A null \<open>fn\<close> and a
  \<open>cxt\<close> that holds no context yet are \<open>None\<close>. The link field of the queues is left to
  the queues.
\<close>

record thread =
  t_size :: nat
  t_flags :: "32 word"
  t_fn :: "(32 word \<Rightarrow> prog) option"
  t_param :: "32 word"
  t_cxt :: "prog option"

text \<open>
  Modelled from the spec: the flags main, allocated, dead and awaited of a thread (the
  macros \<open>FLG_THD_MAIN\<close>, \<open>FLG_THD_ALLOC\<close>, \<open>FLG_THD_DEAD\<close>, \<open>FLG_THD_WAIT\<close> are not
  defined in the sources): four distinct bits of \<open>t->flags\<close>.
\<close>

definition FLG_THD_ALLOC :: "32 word" where
  "FLG_THD_ALLOC = 0x0001"

definition FLG_THD_MAIN :: "32 word" where
  "FLG_THD_MAIN = 0x0002"

definition FLG_THD_DEAD :: "32 word" where
  "FLG_THD_DEAD = 0x0004"

definition FLG_THD_WAIT :: "32 word" where
  "FLG_THD_WAIT = 0x0008"

text \<open>
  The state of the scheduler: the storage that holds thread blocks (caller-supplied stack
  areas and blocks from the allocator alike), the ready queue and the dead queue, the
  current thread, the allocator's pool of free blocks (\<open>heap\<close>), and the code that the
  current thread is running (\<open>run\<close>). \<open>sizeof_thread\<close> is the platform's
  \<open>sizeof(thread)\<close>.
\<close>

record sched =
  threads :: "addr \<rightharpoonup> thread"
  readyQ :: "addr list"
  deadQ :: "addr list"
  current :: addr
  heap :: "addr list"
  sizeof_thread :: nat
  run :: prog

text \<open>
  Modelled from the spec: \<open>Qadd\<close> and \<open>Qpop\<close> (the queue functions are not among the
  sources). A queue is an ordered collection of thread handles; \<open>Qadd\<close> appends at the
  tail and \<open>Qpop\<close> takes the head, or returns null when the queue is empty.
\<close>

definition Qadd :: "addr list \<Rightarrow> addr \<Rightarrow> addr list" where
  "Qadd q t = q @ [t]"

definition Qpop :: "addr list \<Rightarrow> addr \<times> addr list" where
  "Qpop q = (case q of [] \<Rightarrow> (0, []) | t # r \<Rightarrow> (t, r))"

text \<open>
  Modelled from the spec: \<open>gfxAlloc\<close>, the platform's raw memory allocation (declared
  only). It hands out the first block of the pool of free blocks and returns null when
  none is left.
\<close>

definition gfxAlloc :: "nat \<Rightarrow> sched \<Rightarrow> addr \<times> sched" where
  "gfxAlloc sz s = (case heap s of [] \<Rightarrow> (0, s) | a # r \<Rightarrow> (a, s\<lparr>heap := r\<rparr>))"

text \<open>
  Reading and writing a thread block through a pointer. The access has no defined result
  (\<open>None\<close>) through the null pointer and at storage that holds no block, as after
  \<open>gfxFree\<close>.
\<close>

definition derefT :: "sched \<Rightarrow> addr \<Rightarrow> thread option" where
  "derefT s p = (if p = 0 then None else threads s p)"

definition modifyT :: "addr \<Rightarrow> (thread \<Rightarrow> thread) \<Rightarrow> sched \<Rightarrow> sched option" where
  "modifyT p f s =
     (case derefT s p of
        None \<Rightarrow> None
      | Some t \<Rightarrow> Some (s\<lparr>threads := (threads s)(p \<mapsto> f t)\<rparr>))"

text \<open>
  Modelled from the spec: \<open>gfxFree\<close>, the platform's raw memory release (declared only).
  It ends the life of the block and gives it back to the pool; freeing storage that holds
  no block (a second time, for one) has no defined result.
\<close>

definition gfxFree :: "addr \<Rightarrow> sched \<Rightarrow> sched option" where
  "gfxFree p s =
     (case derefT s p of
        None \<Rightarrow> None
      | Some t \<Rightarrow> Some (s\<lparr>threads := (threads s)(p := None), heap := p # heap s\<rparr>))"

subsection \<open>The scheduler's operations\<close>

definition gfxThreadMe :: "sched \<Rightarrow> addr" where
  "gfxThreadMe s = current s"

text \<open>\<open>_longjmp(current->cxt, 1)\<close>: the current thread goes on at its saved context.\<close>

definition longjmp_current :: "sched \<Rightarrow> sched option" where
  "longjmp_current s = do {
     t \<leftarrow> derefT s (current s);
     c \<leftarrow> t_cxt t;
     Some (s\<lparr>run := c\<rparr>)
   }"

text \<open>The loop \<open>while ((current = Qpop(&deadQ))) gfxFree(current)\<close> of \<open>gfxYield\<close>.\<close>

fun freeDead :: "addr list \<Rightarrow> sched \<Rightarrow> sched option" where
  "freeDead [] s = Some (s\<lparr>deadQ := [], current := 0\<rparr>)"
| "freeDead (t # q) s =
     (if t = 0 then Some (s\<lparr>deadQ := q, current := 0\<rparr>)
      else do {
        s \<leftarrow> gfxFree t (s\<lparr>deadQ := q, current := t\<rparr>);
        freeDead q s
      })"

text \<open>
  \<open>gfxYield\<close>, called by code that goes on with \<open>k\<close> when the call returns: the context
  \<open>k\<close> is saved in the current thread's block, the thread is added to the ready queue,
  the dead queue is emptied, and the head of the ready queue becomes the current thread.
\<close>

definition gfxYield :: "prog \<Rightarrow> sched \<Rightarrow> sched option" where
  "gfxYield k s = do {
     s \<leftarrow> modifyT (current s) (\<lambda>t. t\<lparr>t_cxt := Some k\<rparr>) s;
     let s = s\<lparr>readyQ := Qadd (readyQ s) (current s)\<rparr>;
     s \<leftarrow> freeDead (deadQ s) s;
     let (t, q) = Qpop (readyQ s);
     longjmp_current (s\<lparr>current := t, readyQ := q\<rparr>)
   }"

text \<open>\<open>gfxThreadExit\<close>. With an empty ready queue the process ends in \<open>gfxExit()\<close>: \<open>None\<close>.\<close>

definition gfxThreadExit :: "threadreturn_t \<Rightarrow> sched \<Rightarrow> sched option" where
  "gfxThreadExit ret s = do {
     s \<leftarrow> modifyT (current s) (\<lambda>t. t\<lparr>t_param := ret\<rparr>) s;
     s \<leftarrow> modifyT (current s) (\<lambda>t. t\<lparr>t_flags := t_flags t OR FLG_THD_DEAD\<rparr>) s;
     t \<leftarrow> derefT s (current s);
     let s = (if t_flags t AND (FLG_THD_ALLOC OR FLG_THD_WAIT) = FLG_THD_ALLOC
              then s\<lparr>deadQ := Qadd (deadQ s) (current s)\<rparr> else s);
     let (t, q) = Qpop (readyQ s);
     let s = s\<lparr>current := t, readyQ := q\<rparr>;
     if current s = 0 then None else longjmp_current s
   }"

text \<open>
  \<open>gfxThreadCreate\<close>, which returns the handle and the new state. The context saved for
  the new thread is \<open>Entry\<close>. The copy of the stack frame into the new stack and the
  relocation of the saved registers have no counterpart in the model. The priority is
  not used.
\<close>

definition gfxThreadCreate ::
  "addr \<Rightarrow> nat \<Rightarrow> int \<Rightarrow> (32 word \<Rightarrow> prog) \<Rightarrow> 32 word \<Rightarrow> sched \<Rightarrow> addr \<times> sched" where
  "gfxThreadCreate stackarea stacksz prio fn' param' s =
     (let (stacksz, stackarea) =
            (if stacksz < sizeof_thread s + 64 then (sizeof_thread s + 64, 0)
             else (stacksz, stackarea));
          (t, fl, s) =
            (if stackarea \<noteq> 0 then (stackarea, 0, s)
             else (let (t, s) = gfxAlloc stacksz s in (t, FLG_THD_ALLOC, s)))
      in if t = 0 then (0, s)
         else (t, s\<lparr>threads := (threads s)(t \<mapsto>
                        \<lparr>t_size = stacksz, t_flags = fl, t_fn = Some fn', t_param = param',
                         t_cxt = Some Entry\<rparr>),
                     readyQ := Qadd (readyQ s) t\<rparr>))"

text \<open>
  \<open>gfxThreadWait\<close>, called by code that goes on with \<open>k r\<close> when the call returns \<open>r\<close>.
  \<open>waitLoop\<close> is the function from its \<open>while\<close> loop on: each \<open>gfxYield()\<close> of the loop
  saves the context \<open>InWait\<close>, and the thread, resumed, enters \<open>waitLoop\<close> again.
  \<open>waitCleanup\<close> is the part between the loop and the \<open>return\<close>.
\<close>

definition waitCleanup :: "addr \<Rightarrow> sched \<Rightarrow> sched option" where
  "waitCleanup th s = do {
     s \<leftarrow> modifyT th (\<lambda>t. t\<lparr>t_flags := t_flags t AND NOT FLG_THD_WAIT\<rparr>) s;
     t \<leftarrow> derefT s th;
     if t_flags t AND FLG_THD_ALLOC \<noteq> 0 then gfxFree th s else Some s
   }"

definition waitLoop :: "addr \<Rightarrow> (threadreturn_t \<Rightarrow> prog) \<Rightarrow> sched \<Rightarrow> sched option" where
  "waitLoop th k s = do {
     t \<leftarrow> derefT s th;
     if \<not> (t_flags t AND FLG_THD_DEAD \<noteq> 0) then gfxYield (InWait th k) s
     else do {
       s \<leftarrow> waitCleanup th s;
       t \<leftarrow> derefT s th;
       Some (s\<lparr>run := k (t_param t)\<rparr>)
     }
   }"

definition gfxThreadWait :: "addr \<Rightarrow> (threadreturn_t \<Rightarrow> prog) \<Rightarrow> sched \<Rightarrow> sched option" where
  "gfxThreadWait th k s =
     (if th = current s then Some (s\<lparr>run := k (- 1)\<rparr>)
      else do {
        s \<leftarrow> modifyT th (\<lambda>t. t\<lparr>t_flags := t_flags t OR FLG_THD_WAIT\<rparr>) s;
        waitLoop th k s
      })"

text \<open>
  One step of the system: the current thread makes its next call. A thread function that
  returns, returns into \<open>gfxThreadExit(current->fn(current->param))\<close>.
\<close>

definition step :: "sched \<Rightarrow> sched option" where
  "step s =
     (case run s of
        Return r \<Rightarrow> gfxThreadExit r s
      | Yield k \<Rightarrow> gfxYield k s
      | Exit r \<Rightarrow> gfxThreadExit r s
      | Create stackarea stacksz prio fn' param' k \<Rightarrow>
          (let (h, s) = gfxThreadCreate stackarea stacksz prio fn' param' s
           in Some (s\<lparr>run := k h\<rparr>))
      | Wait th k \<Rightarrow> gfxThreadWait th k s
      | Me k \<Rightarrow> Some (s\<lparr>run := k (gfxThreadMe s)\<rparr>)
      | InWait th k \<Rightarrow> waitLoop th k s
      | Entry \<Rightarrow> do {
          t \<leftarrow> derefT s (current s);
          f \<leftarrow> t_fn t;
          Some (s\<lparr>run := f (t_param t)\<rparr>)
        })"

fun steps :: "nat \<Rightarrow> sched \<Rightarrow> sched option" where
  "steps 0 s = Some s"
| "steps (Suc n) s = (case step s of None \<Rightarrow> None | Some s' \<Rightarrow> steps n s')"

text \<open>
  \<open>_gosThreadsInit\<close>: the main thread, whose block is the static \<open>mainthread\<close>, is the
  current thread; it runs the program's code \<open>main\<close>.
\<close>

definition gosThreadsInit :: "addr \<Rightarrow> nat \<Rightarrow> addr list \<Rightarrow> prog \<Rightarrow> sched" where
  "gosThreadsInit mainthread szthread pool main =
     \<lparr>threads = [mainthread \<mapsto> \<lparr>t_size = szthread, t_flags = FLG_THD_MAIN, t_fn = None,
                                  t_param = 0, t_cxt = None\<rparr>],
      readyQ = [], deadQ = [], current = mainthread, heap = pool, sizeof_thread = szthread,
      run = main\<rparr>"

text \<open>
  A block that the scheduler does not own: it holds a thread block whose \<open>FLG_THD_ALLOC\<close>
  flag is clear, it is not queued for reclamation, and it is not in the allocator's pool of
  free blocks (it has not been freed).
\<close>

definition keptBlock :: "addr \<Rightarrow> sched \<Rightarrow> bool" where
  "keptBlock a s \<longleftrightarrow>
     (case threads s a of None \<Rightarrow> False | Some t \<Rightarrow> t_flags t AND FLG_THD_ALLOC = 0) \<and>
     a \<notin> set (deadQ s) \<and> a \<notin> set (heap s)"

text \<open>
  A program of two threads: the main thread creates a worker, whose function returns 7,
  and waits for it. The main thread's block is at address 16, \<open>sizeof(thread)\<close> is 100 and
  the allocator has one free block, at 4096. In \<open>dynScenario\<close> the worker's stack is
  allocated by \<open>gfxThreadCreate\<close>; in \<open>staticScenario\<close> the caller supplies 1000 bytes at
  address 512.
\<close>

definition worker :: "32 word \<Rightarrow> prog" where
  "worker p = Return 7"

definition mainProg :: "addr \<Rightarrow> nat \<Rightarrow> prog" where
  "mainProg stackarea stacksz = Create stackarea stacksz 1 worker 5 (\<lambda>h. Wait h (\<lambda>r. Return r))"

definition dynScenario :: sched where
  "dynScenario = gosThreadsInit 16 100 [4096] (mainProg 0 0)"

definition staticScenario :: sched where
  "staticScenario = gosThreadsInit 16 100 [4096] (mainProg 512 1000)"

section \<open>Properties of the timer engine\<close>

subsection \<open>Pointer reads and writes\<close>

lemma deref_Some_nonnull: "deref s p = Some t \<Longrightarrow> p \<noteq> 0 \<and> timers s p = Some t"
  by (simp add: deref_def split: if_splits)

lemma modify_eq_Some:
  "modify p f s = Some s' \<longleftrightarrow> (\<exists>t. deref s p = Some t \<and> s' = s\<lparr>timers := (timers s)(p \<mapsto> f t)\<rparr>)"
  by (auto simp: modify_def split: option.splits)

lemma deref_modify:
  "modify p f s = Some s' \<Longrightarrow> deref s' q = (if q = p then map_option f (deref s q) else deref s q)"
  by (auto simp: modify_eq_Some deref_def)

subsection \<open>The circular window of the due test\<close>

lemma TimeIsWithin_diff: "TimeIsWithin x s e \<longleftrightarrow> x - s \<le> e - s"
proof -
  have *: "((b \<le> c \<and> b \<le> a \<and> a \<le> c) \<or> (c < b \<and> (b \<le> a \<or> a \<le> c))) \<longleftrightarrow>
           (if b \<le> a then a - b else a + n - b) \<le> (if b \<le> c then c - b else c + n - b)"
    if "a < n" "b < n" "c < n" for a b c n :: nat
    using that by auto
  have "unat x < 2 ^ LENGTH('a)" "unat s < 2 ^ LENGTH('a)" "unat e < 2 ^ LENGTH('a)"
    by (rule unsigned_less)+
  from * [OF this] show ?thesis
    unfolding TimeIsWithin_def
    by (simp add: word_le_nat_alt word_less_nat_alt unat_sub_if')
qed

text \<open>
  Claim C4. On ticks that wrap at the tick width, \<open>TimeIsWithin x start end\<close> holds exactly
  when \<open>x\<close> lies in the circular window from \<open>start\<close> to \<open>end\<close>, that is, when \<open>x\<close> is no
  further from \<open>start\<close> (going forward, modulo the width) than \<open>end\<close> is. When
  \<open>start \<le> end\<close> this is \<open>start \<le> x \<le> end\<close>; when the window wraps it is
  \<open>x \<ge> start\<close> or \<open>x \<le> end\<close>. A record that is neither jabbed nor infinite is judged
  due in a scan exactly when \<open>TimeIsWithin(pt->when, lastTime, tm)\<close> holds.
\<close>

theorem TimeIsWithin_circular_window:
  fixes x start end' lastT tm :: "'w::len word" and t :: "'w GTimer"
  shows "(TimeIsWithin x start end' \<longleftrightarrow> x - start \<le> end' - start)
       \<and> (TimeIsWithin x start end' \<longleftrightarrow>
            (if start \<le> end' then start \<le> x \<and> x \<le> end' else start \<le> x \<or> x \<le> end'))
       \<and> (flags t AND GTIMER_FLG_JABBED = 0 \<and> flags t AND GTIMER_FLG_INFINITE = 0 \<longrightarrow>
            (timerIsDue t lastT tm \<longleftrightarrow> TimeIsWithin (when' t) lastT tm))"
proof (intro conjI)
  show "TimeIsWithin x start end' \<longleftrightarrow> x - start \<le> end' - start"
    by (rule TimeIsWithin_diff)
  show "TimeIsWithin x start end' \<longleftrightarrow>
            (if start \<le> end' then start \<le> x \<and> x \<le> end' else start \<le> x \<or> x \<le> end')"
    by (auto simp: TimeIsWithin_def)
  show "flags t AND GTIMER_FLG_JABBED = 0 \<and> flags t AND GTIMER_FLG_INFINITE = 0 \<longrightarrow>
            (timerIsDue t lastT tm \<longleftrightarrow> TimeIsWithin (when' t) lastT tm)"
    by (simp add: timerIsDue_def)
qed

theorem TimeIsWithin_circular_window_witness:
  "flags tickRecord AND GTIMER_FLG_JABBED = 0 \<and> flags tickRecord AND GTIMER_FLG_INFINITE = 0
   \<and> TimeIsWithin (when' tickRecord) 0xFFFFFFF0 5 \<and> timerIsDue tickRecord 0xFFFFFFF0 5
   \<and> TimeIsWithin (2 :: 32 word) 0xFFFFFFF0 5 \<and> \<not> TimeIsWithin (6 :: 32 word) 0xFFFFFFF0 5
   \<and> TimeIsWithin (3 :: 32 word) 1 5 \<and> \<not> TimeIsWithin (0xFFFFFFF0 :: 32 word) 1 5"
proof -
  have f: "flags tickRecord AND GTIMER_FLG_JABBED = 0 \<and> flags tickRecord AND GTIMER_FLG_INFINITE = 0"
    by (simp add: tickRecord_def GTIMER_FLG_JABBED_def GTIMER_FLG_INFINITE_def)
  have w: "when' tickRecord = 0"
    by (simp add: tickRecord_def)
  show ?thesis
    using f TimeIsWithin_circular_window [of 0 "0xFFFFFFF0" 5 tickRecord "0xFFFFFFF0" 5]
      TimeIsWithin_circular_window [of 2 "0xFFFFFFF0" 5 tickRecord 0 0]
      TimeIsWithin_circular_window [of 6 "0xFFFFFFF0" 5 tickRecord 0 0]
      TimeIsWithin_circular_window [of 3 1 5 tickRecord 0 0]
      TimeIsWithin_circular_window [of "0xFFFFFFF0" 1 5 tickRecord 0 0]
    by (simp add: w)
qed

subsection \<open>The wake time of a periodic record after it fires\<close>

lemma nextWhen_diff:
  fixes w tm p :: "'w::len word"
  shows "nextWhen tm p w - tm = p - ((tm + p - w) mod p)"
proof -
  have "((tm + p - w) div p) * p = (tm + p - w) - ((tm + p - w) mod p)"
    by (metis add_diff_cancel_right' div_mult_mod_eq)
  then show ?thesis by (simp add: nextWhen_def)
qed

lemma unat_sub_mod:
  fixes x p :: "'w::len word"
  assumes "p \<noteq> 0"
  shows "unat (p - x mod p) = unat p - unat x mod unat p"
proof -
  have "x mod p \<le> p"
    using assms by (simp add: word_le_nat_alt unat_mod unat_gt_0 less_imp_le)
  then show ?thesis by (simp add: unat_sub unat_mod)
qed

lemma nextWhen_after:
  fixes w tm p :: "'w::len word"
  assumes "p \<noteq> 0"
  shows "0 < nextWhen tm p w - tm" and "nextWhen tm p w - tm \<le> p"
proof -
  have p: "0 < unat p" using assms by (simp add: unat_gt_0)
  then have m: "unat (tm + p - w) mod unat p < unat p" by simp
  have u: "unat (nextWhen tm p w - tm) = unat p - unat (tm + p - w) mod unat p"
    by (simp add: nextWhen_diff unat_sub_mod assms)
  show "0 < nextWhen tm p w - tm"
    using m u by (simp add: word_less_nat_alt)
  show "nextWhen tm p w - tm \<le> p"
    using u by (simp add: word_le_nat_alt)
qed

lemma nextWhen_numeric:
  fixes w tm p :: "'w::len word"
  assumes "p \<noteq> 0" and "unat tm + unat p < 2 ^ LENGTH('w)"
  shows "tm < nextWhen tm p w"
proof -
  let ?d = "nextWhen tm p w - tm"
  have d: "0 < unat ?d" "unat ?d \<le> unat p"
    using nextWhen_after [OF assms(1), of tm w] by (simp_all add: word_less_nat_alt word_le_nat_alt)
  have e: "tm + ?d = nextWhen tm p w" by simp
  have "unat tm + unat ?d < 2 ^ LENGTH('w)"
    using d assms(2) by linarith
  then have "unat (tm + ?d) = unat tm + unat ?d"
    by (rule unat_add_lem [THEN iffD1])
  then have "unat (nextWhen tm p w) = unat tm + unat ?d"
    by (simp only: e)
  then show ?thesis using d(1) by (simp only: word_less_nat_alt)
qed

lemma nextWhen_floor:
  fixes w tm p :: "'w::len word"
  shows "unat (nextWhen tm p w - w) = (unat (tm + p - w) div unat p) * unat p"
proof -
  let ?x = "tm + p - w"
  have "(unat ?x div unat p) * unat p \<le> unat ?x"
    by simp
  also have "\<dots> < 2 ^ LENGTH('w)"
    by (rule unsigned_less)
  finally have "unat (?x div p) * unat p < 2 ^ LENGTH('w)"
    by (simp add: unat_div)
  then have "unat ((?x div p) * p) = unat (?x div p) * unat p"
    by (rule unat_mult_lem [THEN iffD1])
  then show ?thesis
    by (simp add: nextWhen_def unat_div)
qed

text \<open>
  Claim C2, as amended. A periodic record with a period other than \<open>TIME_IMMEDIATE\<close> that
  is not infinite and is due in a scan at the time \<open>tm\<close> fires, and the scan sets its wake
  time by \<open>when += ((tm + period - when) / period) * period\<close> in unsigned arithmetic
  modulo the tick width. The division is the truncating division of the source: the wake
  time advances by \<open>floor((tm + period - when) / period)\<close> whole periods. The new wake
  time lies between 1 and \<open>period\<close> ticks after \<open>tm\<close> in wrapping tick arithmetic, and is
  numerically greater than \<open>tm\<close> whenever \<open>tm + period\<close> does not wrap.
\<close>

theorem scan_periodic_nextWhen:
  fixes tm :: "'w::len word"
  assumes "deref s pt = Some t" and "timerIsDue t (lastTime s) tm"
    and "flags t AND GTIMER_FLG_PERIODIC \<noteq> 0" and "period t \<noteq> TIME_IMMEDIATE"
    and "flags t AND GTIMER_FLG_INFINITE = 0"
  shows "\<exists>s' t'. scanTimer tm pt s = Some (Fired s' (fn t) (param t)) \<and> deref s' pt = Some t' \<and>
           when' t' = when' t + ((tm + period t - when' t) div period t) * period t \<and>
           unat (when' t' - when' t) = (unat (tm + period t - when' t) div unat (period t)) * unat (period t) \<and>
           0 < when' t' - tm \<and> when' t' - tm \<le> period t \<and>
           (unat tm + unat (period t) < 2 ^ LENGTH('w) \<longrightarrow> tm < when' t')"
proof -
  have p: "period t \<noteq> 0" using assms(4) by (simp add: TIME_IMMEDIATE_def)
  let ?w = "nextWhen tm (period t) (when' t)"
  let ?t' = "t\<lparr>when' := ?w, flags := flags t AND NOT GTIMER_FLG_JABBED\<rparr>"
  let ?s' = "s\<lparr>timers := (timers s)(pt \<mapsto> ?t'), nxtTimeout := TIME_INFINITE\<rparr>"
  have pt: "pt \<noteq> 0" using assms(1) by (simp add: deref_Some_nonnull)
  have "scanTimer tm pt s = Some (Fired ?s' (fn t) (param t))"
    using assms pt by (simp add: scanTimer_def modify_def deref_def)
  moreover have "deref ?s' pt = Some ?t'"
    using pt by (simp add: deref_def)
  moreover have "when' ?t' = when' t + ((tm + period t - when' t) div period t) * period t"
    by (simp add: nextWhen_def)
  moreover have "unat (when' ?t' - when' t) =
      (unat (tm + period t - when' t) div unat (period t)) * unat (period t)"
    using nextWhen_floor [of tm "period t" "when' t"] by simp
  moreover have "0 < when' ?t' - tm" "when' ?t' - tm \<le> period t"
    using nextWhen_after [OF p, of tm "when' t"] by simp_all
  moreover have "unat tm + unat (period t) < 2 ^ LENGTH('w) \<longrightarrow> tm < when' ?t'"
    using nextWhen_numeric [OF p, of tm "when' t"] by simp
  ultimately show ?thesis by blast
qed

theorem scan_periodic_nextWhen_witness:
  "deref tickState 1 = Some tickRecord \<and> timerIsDue tickRecord (lastTime tickState) 5
   \<and> flags tickRecord AND GTIMER_FLG_PERIODIC \<noteq> 0 \<and> period tickRecord \<noteq> TIME_IMMEDIATE
   \<and> flags tickRecord AND GTIMER_FLG_INFINITE = 0
   \<and> (\<exists>s' t'. scanTimer 5 1 tickState = Some (Fired s' 7 0) \<and> deref s' 1 = Some t' \<and>
         when' t' = 10 \<and> (5 :: 32 word) < when' t')"
proof -
  have h1: "deref tickState 1 = Some tickRecord"
    by (simp add: deref_def tickState_def)
  have h2: "timerIsDue tickRecord (lastTime tickState) 5"
    by (simp add: timerIsDue_def TimeIsWithin_def tickRecord_def tickState_def
        GTIMER_FLG_JABBED_def GTIMER_FLG_INFINITE_def)
  have h3: "flags tickRecord AND GTIMER_FLG_PERIODIC \<noteq> 0"
    by (simp add: tickRecord_def GTIMER_FLG_PERIODIC_def)
  have h4: "period tickRecord \<noteq> TIME_IMMEDIATE"
    by (simp add: tickRecord_def TIME_IMMEDIATE_def)
  have h5: "flags tickRecord AND GTIMER_FLG_INFINITE = 0"
    by (simp add: tickRecord_def GTIMER_FLG_INFINITE_def)
  have v: "fn tickRecord = 7" "param tickRecord = 0" "when' tickRecord = 0" "period tickRecord = 10"
    by (simp_all add: tickRecord_def)
  from scan_periodic_nextWhen [OF h1 h2 h3 h4 h5]
  obtain s' t' where "scanTimer 5 1 tickState = Some (Fired s' 7 0)" "deref s' 1 = Some t'"
    "when' t' = 10" "unat (5 :: 32 word) + unat (10 :: 32 word) < 2 ^ 32 \<longrightarrow> 5 < when' t'"
    by (auto simp: v)
  then have "scanTimer 5 1 tickState = Some (Fired s' 7 0) \<and> deref s' 1 = Some t' \<and>
         when' t' = 10 \<and> (5 :: 32 word) < when' t'"
    by simp
  then show ?thesis using h1 h2 h3 h4 h5 by blast
qed

text \<open>
  The claim as it is written fails. At \<open>when = 0\<close>, \<open>tm = 5\<close>, \<open>period = 10\<close> the source
  adds one period (the new wake time is 10), where the ceiling of the specification adds
  two (20). At \<open>when = 0xFFFFFFFA\<close>, \<open>tm = 0xFFFFFFFE\<close>, \<open>period = 10\<close> the new wake
  time has wrapped to 4, which is not numerically after \<open>tm\<close>.
\<close>

theorem nextWhen_ceiling_counterexample:
  "nextWhen (5 :: 32 word) 10 0 = 10 \<and> spec_nextWhen (5 :: 32 word) 10 0 = 20
   \<and> nextWhen (5 :: 32 word) 10 0 \<noteq> spec_nextWhen 5 10 0
   \<and> nextWhen (0xFFFFFFFE :: 32 word) 10 0xFFFFFFFA = 4
   \<and> \<not> (0xFFFFFFFE :: 32 word) < nextWhen 0xFFFFFFFE 10 0xFFFFFFFA"
  by (simp add: nextWhen_def spec_nextWhen_def)

subsection \<open>Flags written by \<open>gtimerStart\<close>; infinite timers\<close>

lemma flagsAt_modify:
  "modify q f s = Some s' \<Longrightarrow>
   flagsAt s' p = (if p = q then map_option (\<lambda>t. flags (f t)) (deref s q) else flagsAt s p)"
  by (auto simp: flagsAt_def deref_modify option.map_comp comp_def)

lemma modify_deref_same:
  "modify p f s = Some s' \<Longrightarrow> \<exists>t. deref s p = Some t \<and> deref s' p = Some (f t)"
  by (auto simp: modify_eq_Some deref_def split: if_splits)

lemma flagsAt_modify_link:
  "modify q f s = Some s' \<Longrightarrow> (\<And>t. flags (f t) = flags t) \<Longrightarrow> flagsAt s' p = flagsAt s p"
  using flagsAt_modify [of q f s s' p] by (cases "deref s q") (auto simp: flagsAt_def modify_def)

lemma flagsAt_head [simp]: "flagsAt (s\<lparr>pTimerHead := h\<rparr>) p = flagsAt s p"
  by (simp add: flagsAt_def deref_def)

lemma flagsAt_hThread [simp]: "flagsAt (s\<lparr>hThread := h\<rparr>) p = flagsAt s p"
  by (simp add: flagsAt_def deref_def)

lemma flagsAt_BUMP [simp]: "flagsAt (BUMP_BUMP s) p = flagsAt s p"
  by (simp add: flagsAt_def deref_def BUMP_BUMP_def)

lemma startCancel_flagsAt:
  assumes "startCancel pt s = Some s'"
  shows "flagsAt s' p = flagsAt s p"
  using assms unfolding startCancel_def
  by (auto simp: bind_eq_Some_conv flagsAt_modify_link split: if_splits)

lemma startAppend_flagsAt:
  assumes "startAppend pt s = Some s'"
  shows "flagsAt s' p = flagsAt s p"
  using assms unfolding startAppend_def
  by (auto simp: bind_eq_Some_conv flagsAt_modify_link split: if_splits)

lemma modify_flagsAt_same:
  "modify p f s = Some s' \<Longrightarrow> flagsAt s p = Some v \<Longrightarrow> (\<And>t. flags t = v \<Longrightarrow> flags (f t) = v')
   \<Longrightarrow> flagsAt s' p = Some v'"
  by (auto simp: flagsAt_def dest!: modify_deref_same)

lemma modify_flagsAt_set:
  "modify p f s = Some s' \<Longrightarrow> (\<And>t. flags (f t) = v') \<Longrightarrow> flagsAt s' p = Some v'"
  by (auto simp: flagsAt_def dest!: modify_deref_same)

lemma startSetup_flagsAt:
  assumes "startSetup m2t now pt f p periodic millisec s = Some s'"
  shows "flagsAt s' pt = Some ((if periodic then GTIMER_FLG_SCHEDULED OR GTIMER_FLG_PERIODIC else GTIMER_FLG_SCHEDULED)
                        OR (if millisec = TIME_INFINITE then GTIMER_FLG_INFINITE else 0))"
proof -
  let ?v = "if periodic then GTIMER_FLG_SCHEDULED OR GTIMER_FLG_PERIODIC else GTIMER_FLG_SCHEDULED"
  from assms obtain s1 s2 where
    m1: "modify pt (\<lambda>t. t\<lparr>fn := f, param := p, flags := GTIMER_FLG_SCHEDULED\<rparr>) s = Some s1"
    and m2: "(if periodic then modify pt (\<lambda>t. t\<lparr>flags := flags t OR GTIMER_FLG_PERIODIC\<rparr>) s1
              else Some s1) = Some s2"
    and m3: "(if millisec = TIME_INFINITE
              then modify pt (\<lambda>t. t\<lparr>flags := flags t OR GTIMER_FLG_INFINITE, period := TIME_INFINITE\<rparr>) s2
              else modify pt (\<lambda>t. t\<lparr>period := m2t millisec, when' := now + m2t millisec\<rparr>) s2) = Some s'"
    unfolding startSetup_def by (auto simp: bind_eq_Some_conv)
  have f1: "flagsAt s1 pt = Some GTIMER_FLG_SCHEDULED"
    by (rule modify_flagsAt_set [OF m1]) simp
  have f2: "flagsAt s2 pt = Some ?v"
  proof (cases periodic)
    case True
    with m2 have "modify pt (\<lambda>t. t\<lparr>flags := flags t OR GTIMER_FLG_PERIODIC\<rparr>) s1 = Some s2" by simp
    from modify_flagsAt_same [OF this f1, of "GTIMER_FLG_SCHEDULED OR GTIMER_FLG_PERIODIC"] True
    show ?thesis by simp
  next
    case False
    with m2 f1 show ?thesis by simp
  qed
  show ?thesis
  proof (cases "millisec = TIME_INFINITE")
    case True
    with m3 have "modify pt (\<lambda>t. t\<lparr>flags := flags t OR GTIMER_FLG_INFINITE, period := TIME_INFINITE\<rparr>) s2 = Some s'"
      by simp
    from modify_flagsAt_same [OF this f2, of "?v OR GTIMER_FLG_INFINITE"] True
    show ?thesis by simp
  next
    case False
    with m3 have "modify pt (\<lambda>t. t\<lparr>period := m2t millisec, when' := now + m2t millisec\<rparr>) s2 = Some s'"
      by simp
    from modify_flagsAt_same [OF this f2, of ?v] False
    show ?thesis by simp
  qed
qed

lemma gtimerStart_flagsAt:
  assumes "gtimerStart th m2t now pt f p periodic millisec s = Some s'"
  shows "flagsAt s' pt = Some ((if periodic then GTIMER_FLG_SCHEDULED OR GTIMER_FLG_PERIODIC else GTIMER_FLG_SCHEDULED)
                        OR (if millisec = TIME_INFINITE then GTIMER_FLG_INFINITE else 0))"
proof -
  from assms obtain s1 s2 s3 where
    c: "startCancel pt (if hThread s = 0 then s\<lparr>hThread := th\<rparr> else s) = Some s1"
    and u: "startSetup m2t now pt f p periodic millisec s1 = Some s2"
    and a: "startAppend pt s2 = Some s3"
    and e: "flagsAt s' pt = flagsAt s3 pt"
    unfolding gtimerStart_def Let_def
    by (auto simp: bind_eq_Some_conv split: if_splits)
  show ?thesis
    using startSetup_flagsAt [OF u] startAppend_flagsAt [OF a, of pt] e by simp
qed

text \<open>
  Claim C8. A timer started with the delay \<open>TIME_INFINITE\<close> has \<open>GTIMER_FLG_INFINITE\<close> set
  when \<open>gtimerStart\<close> returns, and no scan time and last scan time make the due test hold
  for the record as \<open>gtimerStart\<close> leaves it. In general, the due test holds for a record
  with \<open>GTIMER_FLG_INFINITE\<close> only if \<open>GTIMER_FLG_JABBED\<close> is set, whatever its wake time.
\<close>

theorem infinite_timer_due_only_if_jabbed:
  fixes s :: "'w::len gtimer_state" and t :: "'w GTimer"
  shows "(gtimerStart th m2t now pt f p periodic TIME_INFINITE s = Some s' \<longrightarrow>
           (\<exists>t'. deref s' pt = Some t' \<and> flags t' AND GTIMER_FLG_INFINITE \<noteq> 0 \<and>
                 (\<forall>lastT tm. \<not> timerIsDue t' lastT tm)))
       \<and> (flags t AND GTIMER_FLG_INFINITE \<noteq> 0 \<and> timerIsDue t lastT tm \<longrightarrow>
            flags t AND GTIMER_FLG_JABBED \<noteq> 0)"
proof (intro conjI impI)
  assume a: "gtimerStart th m2t now pt f p periodic TIME_INFINITE s = Some s'"
  from gtimerStart_flagsAt [OF a] obtain t' where
    t': "deref s' pt = Some t'"
    and fl: "flags t' = (if periodic then GTIMER_FLG_SCHEDULED OR GTIMER_FLG_PERIODIC else GTIMER_FLG_SCHEDULED)
                OR GTIMER_FLG_INFINITE"
    by (auto simp: flagsAt_def)
  have i: "flags t' AND GTIMER_FLG_INFINITE \<noteq> 0" and j: "flags t' AND GTIMER_FLG_JABBED = 0"
    using fl by (simp_all add: GTIMER_FLG_SCHEDULED_def GTIMER_FLG_PERIODIC_def
        GTIMER_FLG_INFINITE_def GTIMER_FLG_JABBED_def)
  from i j have "\<forall>lastT tm. \<not> timerIsDue t' lastT tm"
    by (simp add: timerIsDue_def)
  with t' i show "\<exists>t'. deref s' pt = Some t' \<and> flags t' AND GTIMER_FLG_INFINITE \<noteq> 0 \<and>
                 (\<forall>lastT tm. \<not> timerIsDue t' lastT tm)"
    by blast
next
  assume "flags t AND GTIMER_FLG_INFINITE \<noteq> 0 \<and> timerIsDue t lastT tm"
  then show "flags t AND GTIMER_FLG_JABBED \<noteq> 0"
    by (auto simp: timerIsDue_def)
qed

theorem infinite_timer_due_only_if_jabbed_witness:
  "(\<exists>s' t'. gtimerStart 9 (\<lambda>ms. ms) 100 16 7 0 False TIME_INFINITE (gtimer_initial [16 \<mapsto> idleRecord]) = Some s'
       \<and> deref s' 16 = Some t' \<and> flags t' AND GTIMER_FLG_INFINITE \<noteq> 0
       \<and> (\<forall>lastT tm. \<not> timerIsDue t' lastT tm))
   \<and> flags jabbedRecord AND GTIMER_FLG_INFINITE \<noteq> 0 \<and> timerIsDue jabbedRecord 0 5
   \<and> flags jabbedRecord AND GTIMER_FLG_JABBED \<noteq> 0"
proof -
  have "\<exists>s'. gtimerStart 9 (\<lambda>ms. ms) 100 16 7 0 False TIME_INFINITE (gtimer_initial [16 \<mapsto> idleRecord]) = Some s'"
    by (simp add: gtimerStart_def startCancel_def startSetup_def startAppend_def gtimer_initial_def
        idleRecord_def modify_def deref_def TIME_INFINITE_def GTIMER_FLG_SCHEDULED_def
        GTIMER_FLG_INFINITE_def)
  then obtain s' where
    h: "gtimerStart 9 (\<lambda>ms. ms) 100 16 7 0 False TIME_INFINITE (gtimer_initial [16 \<mapsto> idleRecord]) = Some s'"
    by blast
  have j: "flags jabbedRecord AND GTIMER_FLG_INFINITE \<noteq> 0 \<and> timerIsDue jabbedRecord 0 5"
    by (simp add: jabbedRecord_def timerIsDue_def GTIMER_FLG_INFINITE_def GTIMER_FLG_JABBED_def)
  show ?thesis
    using h j infinite_timer_due_only_if_jabbed [of 9 "\<lambda>ms. ms" 100 16 7 0 False
        "gtimer_initial [16 \<mapsto> idleRecord]" s' jabbedRecord 0 5]
    by blast
qed

subsection \<open>Neighbours in a circular list\<close>

lemma zip_snoc: "length xs = length ys \<Longrightarrow> zip (xs @ [a]) (ys @ [b]) = zip xs ys @ [(a, b)]"
  by simp

lemma ringPairs_alt:
  assumes "w \<noteq> []"
  shows "set (ringPairs w) = insert (last w, hd w) (set (zip (butlast w) (tl w)))"
proof -
  from assms obtain b w' where w: "w = b # w'" by (cases w) auto
  have "zip (butlast w @ [last w]) (w' @ [b]) = zip (butlast w) w' @ [(last w, b)]"
    by (rule zip_snoc) (simp add: w)
  then show ?thesis
    using assms by (simp add: ringPairs_def w del: butlast.simps last.simps)
qed

lemma ringPairs_Cons:
  assumes "w \<noteq> []"
  shows "set (ringPairs (p # w)) = insert (p, hd w) (insert (last w, p) (set (zip (butlast w) (tl w))))"
proof -
  from assms obtain b w' where w: "w = b # w'" by (cases w) auto
  have "zip (butlast w @ [last w]) (w' @ [p]) = zip (butlast w) w' @ [(last w, p)]"
    by (rule zip_snoc) (simp add: w)
  then have "zip w (w' @ [p]) = zip (butlast w) w' @ [(last w, p)]"
    using assms by simp
  then show ?thesis
    by (auto simp: ringPairs_def w simp del: butlast.simps last.simps)
qed

lemma ringPairs_rotate1: "set (ringPairs (rotate1 xs)) = set (ringPairs xs)"
proof (cases xs)
  case Nil
  then show ?thesis by (simp add: ringPairs_def)
next
  case (Cons x r)
  show ?thesis
  proof (cases r)
    case Nil
    with Cons show ?thesis by (simp add: ringPairs_def)
  next
    case (Cons y r')
    have "zip ((y # r') @ [x]) ((r' @ [x]) @ [y]) = zip (y # r') (r' @ [x]) @ [(x, y)]"
      by (rule zip_snoc) simp
    then show ?thesis
      using \<open>xs = x # r\<close> Cons by (auto simp: ringPairs_def)
  qed
qed

lemma ringPairs_rotate: "set (ringPairs (rotate n xs)) = set (ringPairs xs)"
  by (induction n) (simp_all add: ringPairs_rotate1)

lemma ringPairs_swap: "set (ringPairs (ys @ zs)) = set (ringPairs (zs @ ys))"
proof -
  have "rotate (length ys) (ys @ zs) = zs @ ys"
    by (simp add: rotate_append)
  then show ?thesis
    using ringPairs_rotate [of "length ys" "ys @ zs"] by simp
qed

lemma zip_butlast_tl_distinct:
  assumes "distinct w" and "(x, y) \<in> set (zip (butlast w) (tl w))"
  shows "x \<in> set w \<and> y \<in> set w \<and> x \<noteq> last w \<and> y \<noteq> hd w"
proof -
  from assms(2) have x: "x \<in> set (butlast w)" and y: "y \<in> set (tl w)"
    by (auto dest: set_zip_leftD set_zip_rightD)
  then have ne: "w \<noteq> []" by auto
  from x have "x \<in> set w" by (rule in_set_butlastD)
  moreover from y have "y \<in> set w" by (rule list.set_sel(2) [rotated]) (use ne in simp)
  moreover have "x \<noteq> last w"
    using x assms(1) ne by (metis append_butlast_last_id distinct_append disjoint_iff list.set_intros(1))
  moreover have "y \<noteq> hd w"
    using y assms(1) ne by (metis distinct.simps(2) list.collapse)
  ultimately show ?thesis by simp
qed

subsection \<open>\<open>gtimerStop\<close>\<close>

lemma link_iff:
  "link s a b \<longleftrightarrow> (\<exists>ta tb. deref s a = Some ta \<and> deref s b = Some tb \<and> next' ta = b \<and> prev tb = a)"
  by (auto simp: link_def split: option.splits)

lemma gtimerStop_single:
  assumes "deref s pt = Some t" and "flags t AND GTIMER_FLG_SCHEDULED \<noteq> 0" and "next' t = pt"
  shows "\<exists>s'. gtimerStop pt s = Some s' \<and> pTimerHead s' = 0 \<and>
           (\<forall>p. deref s' p = (if p = pt then Some (t\<lparr>flags := 0\<rparr>) else deref s p)) \<and>
           nxtTimeout s' = nxtTimeout s \<and> lastTime s' = lastTime s \<and> hThread s' = hThread s \<and>
           waitsem s' = waitsem s"
  using assms by (auto simp: gtimerStop_def modify_def deref_def split: if_splits)

lemma gtimerStop_unlink:
  assumes "deref s pt = Some t" and "flags t AND GTIMER_FLG_SCHEDULED \<noteq> 0"
    and "next' t = b" and "prev t = a" and "b \<noteq> pt" and "a \<noteq> pt"
    and "deref s a = Some ta" and "deref s b = Some tb"
  shows "\<exists>s'. gtimerStop pt s = Some s' \<and>
           pTimerHead s' = (if pTimerHead s = pt then b else pTimerHead s) \<and>
           (\<forall>p. deref s' p =
              (if p = pt then Some (t\<lparr>flags := 0\<rparr>)
               else map_option (\<lambda>r. r\<lparr>next' := (if p = a then b else next' r),
                                       prev := (if p = b then a else prev r)\<rparr>) (deref s p))) \<and>
           nxtTimeout s' = nxtTimeout s \<and> lastTime s' = lastTime s \<and> hThread s' = hThread s \<and>
           waitsem s' = waitsem s"
proof (cases "a = b")
  case True
  with assms show ?thesis
    by (auto simp: gtimerStop_def modify_def deref_def option.map_ident split: if_splits)
next
  case False
  with assms show ?thesis
    by (auto simp: gtimerStop_def modify_def deref_def option.map_ident split: if_splits)
qed

lemma scheduled_iff:
  "scheduled s p \<longleftrightarrow> (\<exists>t. deref s p = Some t \<and> flags t AND GTIMER_FLG_SCHEDULED \<noteq> 0)"
  by (auto simp: scheduled_def flagsAt_def split: option.splits)

lemma gtimerStop_removes:
  assumes R: "timerRing s xs" and D: "deref s pt = Some t"
    and F: "flags t AND GTIMER_FLG_SCHEDULED \<noteq> 0"
  shows "\<exists>s'. gtimerStop pt s = Some s' \<and> timerRing s' (remove1 pt xs) \<and>
           deref s' pt = Some (t\<lparr>flags := 0\<rparr>) \<and>
           (\<forall>p. p \<noteq> pt \<longrightarrow> flagsAt s' p = flagsAt s p) \<and>
           nxtTimeout s' = nxtTimeout s \<and> lastTime s' = lastTime s \<and> hThread s' = hThread s \<and>
           waitsem s' = waitsem s"
proof -
  from R have dist: "distinct xs"
    and head: "pTimerHead s = (case xs of [] \<Rightarrow> 0 | h # _ \<Rightarrow> h)"
    and links: "\<And>a b. (a, b) \<in> set (ringPairs xs) \<Longrightarrow> link s a b"
    and sched: "\<And>p. scheduled s p \<longleftrightarrow> p \<in> set xs"
    by (auto simp: timerRing_def)
  from D F have "scheduled s pt" by (auto simp: scheduled_iff)
  then have "pt \<in> set xs" by (simp add: sched)
  then obtain ys zs where xs: "xs = ys @ pt # zs"
    by (auto dest: split_list)
  define w where "w = zs @ ys"
  from dist xs have dw: "distinct w" and ptw: "pt \<notin> set w" and ptys: "pt \<notin> set ys"
    by (auto simp: w_def)
  have rem: "remove1 pt xs = ys @ zs"
    using ptys by (simp add: xs remove1_append)
  have pairs_old: "set (ringPairs xs) = set (ringPairs (pt # w))"
    unfolding xs w_def using ringPairs_swap [of ys "pt # zs"] by simp
  have pairs_new: "set (ringPairs (ys @ zs)) = set (ringPairs w)"
    unfolding w_def by (rule ringPairs_swap)
  show ?thesis
  proof (cases "w = []")
    case True
    then have xs1: "xs = [pt]" by (simp add: xs w_def)
    have "link s pt pt"
      by (rule links) (simp add: xs1 ringPairs_def)
    with D have "next' t = pt" by (auto simp: link_iff)
    from gtimerStop_single [OF D F this] obtain s' where
      st: "gtimerStop pt s = Some s'" and h': "pTimerHead s' = 0"
      and d': "\<And>p. deref s' p = (if p = pt then Some (t\<lparr>flags := 0\<rparr>) else deref s p)"
      and rest: "nxtTimeout s' = nxtTimeout s" "lastTime s' = lastTime s" "hThread s' = hThread s"
        "waitsem s' = waitsem s"
      by blast
    have "\<And>p. \<not> scheduled s' p"
      using sched by (auto simp: scheduled_iff d' xs1 split: if_splits)
    then have "timerRing s' []"
      by (simp add: timerRing_def h' ringPairs_def)
    moreover have "\<forall>p. p \<noteq> pt \<longrightarrow> flagsAt s' p = flagsAt s p"
      by (simp add: flagsAt_def d')
    ultimately show ?thesis
      using st d' rest by (simp add: xs1)
  next
    case False
    define b where "b = hd w"
    define a where "a = last w"
    have bw: "b \<in> set w" and aw: "a \<in> set w"
      using False by (simp_all add: a_def b_def)
    then have bpt: "b \<noteq> pt" and apt: "a \<noteq> pt"
      using ptw by auto
    have po: "set (ringPairs (pt # w)) = insert (pt, b) (insert (a, pt) (set (zip (butlast w) (tl w))))"
      unfolding a_def b_def by (rule ringPairs_Cons [OF False])
    have pn: "set (ringPairs w) = insert (a, b) (set (zip (butlast w) (tl w)))"
      unfolding a_def b_def by (rule ringPairs_alt [OF False])
    have "link s pt b" "link s a pt"
      by (rule links, simp add: pairs_old po)+
    with D obtain ta tb where nb: "next' t = b" and pa: "prev t = a"
      and da: "deref s a = Some ta" and db: "deref s b = Some tb"
      by (auto simp: link_iff)
    from gtimerStop_unlink [OF D F nb pa bpt apt da db] obtain s' where
      st: "gtimerStop pt s = Some s'"
      and h': "pTimerHead s' = (if pTimerHead s = pt then b else pTimerHead s)"
      and d': "\<And>p. deref s' p =
              (if p = pt then Some (t\<lparr>flags := 0\<rparr>)
               else map_option (\<lambda>r. r\<lparr>next' := (if p = a then b else next' r),
                                       prev := (if p = b then a else prev r)\<rparr>) (deref s p))"
      and rest: "nxtTimeout s' = nxtTimeout s" "lastTime s' = lastTime s" "hThread s' = hThread s"
        "waitsem s' = waitsem s"
      by blast
    have fl: "\<forall>p. p \<noteq> pt \<longrightarrow> flagsAt s' p = flagsAt s p"
      by (auto simp: flagsAt_def d' option.map_comp comp_def)
    have sch': "\<And>p. scheduled s' p \<longleftrightarrow> p \<in> set (ys @ zs)"
    proof -
      fix p
      show "scheduled s' p \<longleftrightarrow> p \<in> set (ys @ zs)"
      proof (cases "p = pt")
        case True
        then show ?thesis using ptw by (auto simp: scheduled_iff d' w_def)
      next
        case False
        then have "scheduled s' p \<longleftrightarrow> scheduled s p"
          using fl by (simp add: scheduled_def)
        then show ?thesis using False by (auto simp: sched xs)
      qed
    qed
    have hd': "pTimerHead s' = (case ys @ zs of [] \<Rightarrow> 0 | h # _ \<Rightarrow> h)"
    proof (cases ys)
      case Nil
      then have "pTimerHead s = pt" by (simp add: head xs)
      moreover have "zs \<noteq> []" using \<open>w \<noteq> []\<close> Nil by (simp add: w_def)
      ultimately show ?thesis
        using Nil by (cases zs) (simp_all add: h' b_def w_def)
    next
      case (Cons y ys')
      then have "pTimerHead s = y" by (simp add: head xs)
      moreover have "y \<noteq> pt" using ptys Cons by auto
      ultimately show ?thesis using Cons by (simp add: h')
    qed
    have lk': "link s' x y" if "(x, y) \<in> set (ringPairs (ys @ zs))" for x y
    proof -
      from that have "(x, y) = (a, b) \<or> (x, y) \<in> set (zip (butlast w) (tl w))"
        by (simp add: pairs_new pn)
      then show ?thesis
      proof
        assume "(x, y) = (a, b)"
        then show ?thesis
          using da db apt bpt by (auto simp: link_iff d')
      next
        assume z: "(x, y) \<in> set (zip (butlast w) (tl w))"
        from zip_butlast_tl_distinct [OF dw z]
        have "x \<in> set w" "y \<in> set w" "x \<noteq> a" "y \<noteq> b"
          by (simp_all add: a_def b_def)
        then have "x \<noteq> pt" "y \<noteq> pt" using ptw by auto
        have "link s x y"
          by (rule links) (simp add: pairs_old po z)
        then obtain tx ty where dx: "deref s x = Some tx" and dy: "deref s y = Some ty"
          and n: "next' tx = y" and p: "prev ty = x"
          by (auto simp: link_iff)
        have "deref s' x = Some (tx\<lparr>prev := (if x = b then a else prev tx)\<rparr>)"
          using \<open>x \<noteq> pt\<close> \<open>x \<noteq> a\<close> dx by (simp add: d')
        moreover have "deref s' y = Some (ty\<lparr>next' := (if y = a then b else next' ty)\<rparr>)"
          using \<open>y \<noteq> pt\<close> \<open>y \<noteq> b\<close> dy by (simp add: d')
        ultimately show ?thesis
          using n p by (simp add: link_iff)
      qed
    qed
    have "timerRing s' (ys @ zs)"
      unfolding timerRing_def using dist hd' lk' sch' by (auto simp: xs)
    then show ?thesis
      using st d' fl rest by (simp add: rem)
  qed
qed

text \<open>
  What \<open>gtimerStop\<close> does where the invariant of the list holds. For a record whose
  \<open>GTIMER_FLG_SCHEDULED\<close> flag is set it removes the record from the list (the list is
  the old one without it, and the invariant holds again), clears all its flags, so that
  \<open>gtimerIsActive\<close> returns FALSE, and leaves the flags of the other records and the
  rest of the engine state as they were. For a record whose flag is clear \<open>gtimerStop\<close>
  changes nothing at all, in any state.
\<close>

lemma gtimerStop_unlinks_or_noop:
  assumes "deref s pt = Some t"
  shows "(flags t AND GTIMER_FLG_SCHEDULED \<noteq> 0 \<and> timerRing s xs \<longrightarrow>
           (\<exists>s'. gtimerStop pt s = Some s' \<and> timerRing s' (remove1 pt xs) \<and>
                 pt \<notin> set (remove1 pt xs) \<and> flagsAt s' pt = Some 0 \<and>
                 gtimerIsActive pt s' = Some False \<and>
                 (\<forall>p. p \<noteq> pt \<longrightarrow> flagsAt s' p = flagsAt s p) \<and>
                 nxtTimeout s' = nxtTimeout s \<and> lastTime s' = lastTime s \<and>
                 hThread s' = hThread s \<and> waitsem s' = waitsem s))
       \<and> (flags t AND GTIMER_FLG_SCHEDULED = 0 \<longrightarrow> gtimerStop pt s = Some s)"
proof (intro conjI impI)
  assume a: "flags t AND GTIMER_FLG_SCHEDULED \<noteq> 0 \<and> timerRing s xs"
  then have d: "distinct xs" by (simp add: timerRing_def)
  from a gtimerStop_removes [OF _ assms, of xs] obtain s' where
    st: "gtimerStop pt s = Some s'" and r: "timerRing s' (remove1 pt xs)"
    and d': "deref s' pt = Some (t\<lparr>flags := 0\<rparr>)"
    and o: "\<forall>p. p \<noteq> pt \<longrightarrow> flagsAt s' p = flagsAt s p"
    and e: "nxtTimeout s' = nxtTimeout s" "lastTime s' = lastTime s" "hThread s' = hThread s"
      "waitsem s' = waitsem s"
    by blast
  have "flagsAt s' pt = Some 0" "gtimerIsActive pt s' = Some False"
    using d' by (simp_all add: flagsAt_def gtimerIsActive_def)
  moreover have "pt \<notin> set (remove1 pt xs)"
    using d by simp
  ultimately show "\<exists>s'. gtimerStop pt s = Some s' \<and> timerRing s' (remove1 pt xs) \<and>
                 pt \<notin> set (remove1 pt xs) \<and> flagsAt s' pt = Some 0 \<and>
                 gtimerIsActive pt s' = Some False \<and>
                 (\<forall>p. p \<noteq> pt \<longrightarrow> flagsAt s' p = flagsAt s p) \<and>
                 nxtTimeout s' = nxtTimeout s \<and> lastTime s' = lastTime s \<and>
                 hThread s' = hThread s \<and> waitsem s' = waitsem s"
    using st r o e by blast
next
  assume "flags t AND GTIMER_FLG_SCHEDULED = 0"
  then show "gtimerStop pt s = Some s"
    using assms by (simp add: gtimerStop_def)
qed

subsection \<open>Starting two timers and starting the first again\<close>

lemmas gtimerStart_unfold =
  gtimerStart_def startCancel_def startSetup_def startAppend_def gtimer_initial_def
  idleRecord_def modify_def deref_def TIME_INFINITE_def GTIMER_FLG_SCHEDULED_def
  GTIMER_FLG_INFINITE_def GTIMER_FLG_PERIODIC_def BUMP_BUMP_def gfxSemSignal_def

lemma startTwo_eq: "startTwo = Some ringState"
  unfolding startTwo_def ringState_def
  by (simp add: gtimerStart_unfold fun_upd_twist)

lemma timerRing_ringState: "timerRing ringState [16, 32]"
  by (auto simp: timerRing_def ringState_def ringPairs_def link_def deref_def scheduled_def
      flagsAt_def idleRecord_def GTIMER_FLG_SCHEDULED_def split: if_splits)

lemma rearm_ringState:
  "gtimerStart 9 (\<lambda>ms. ms) 0 16 7 0 False 100 ringState = Some orphanState"
  unfolding ringState_def orphanState_def
  by (simp add: gtimerStart_unfold fun_upd_twist)

lemma gtimerStop_unlinks_or_noop_witness:
  "deref ringState 16 = Some \<lparr>fn = 7, param = 0, when' = 100, period = 100, flags = 8, next' = 32, prev = 32\<rparr>
   \<and> timerRing ringState [16, 32]
   \<and> (\<exists>s'. gtimerStop 16 ringState = Some s' \<and> timerRing s' [32] \<and> flagsAt s' 16 = Some 0 \<and>
           gtimerIsActive 16 s' = Some False)
   \<and> deref ringState 48 = Some idleRecord \<and> gtimerStop 48 ringState = Some ringState"
proof -
  have d16: "deref ringState 16 =
      Some \<lparr>fn = 7, param = 0, when' = 100, period = 100, flags = 8, next' = 32, prev = 32\<rparr>"
    by (simp add: ringState_def deref_def)
  have d48: "deref ringState 48 = Some idleRecord"
    by (simp add: ringState_def deref_def)
  have f16: "flags \<lparr>fn = 7, param = 0, when' = (100 :: 32 word), period = (100 :: 32 word), flags = 8,
      next' = 32, prev = 32\<rparr> AND GTIMER_FLG_SCHEDULED \<noteq> 0"
    by (simp add: GTIMER_FLG_SCHEDULED_def)
  have f48: "flags idleRecord AND GTIMER_FLG_SCHEDULED = 0"
    by (simp add: idleRecord_def)
  from gtimerStop_unlinks_or_noop [OF d16, of "[16, 32]"] f16 timerRing_ringState
  have "\<exists>s'. gtimerStop 16 ringState = Some s' \<and> timerRing s' [32] \<and> flagsAt s' 16 = Some 0 \<and>
           gtimerIsActive 16 s' = Some False"
    by auto
  moreover from gtimerStop_unlinks_or_noop [OF d48, of "[]"] f48
  have "gtimerStop 48 ringState = Some ringState"
    by simp
  ultimately show ?thesis
    using d16 d48 timerRing_ringState by blast
qed

text \<open>
  Claim C1 at the calls start(16), start(32), start(16) from the initial state. The third
  call finds \<open>pt->next == pt->prev\<close> (both are the record at 32), takes the list for a
  list of one record and sets the head to null, and then inserts the record at 16 into
  an empty list. When it returns, the list holds one record, and two records have
  \<open>GTIMER_FLG_SCHEDULED\<close> set.
\<close>

theorem rearm_scheduled_count_exceeds_list:
  "rearmFirst = Some orphanState
   \<and> listedTimers 3 orphanState = [16]
   \<and> filter (scheduled orphanState) [16, 32, 48] = [16, 32]
   \<and> length (filter (scheduled orphanState) [16, 32, 48]) \<noteq> length (listedTimers 3 orphanState)"
proof -
  have "rearmFirst = Some orphanState"
    by (simp add: rearmFirst_def startTwo_eq rearm_ringState)
  moreover have "listedTimers 3 orphanState = [16]"
    by (simp add: orphanState_def listedTimers_def numeral_3_eq_3 deref_def)
  moreover have "filter (scheduled orphanState) [16, 32, 48] = [16, 32]"
    by (simp add: orphanState_def scheduled_def flagsAt_def deref_def idleRecord_def
        GTIMER_FLG_SCHEDULED_def)
  ultimately show ?thesis by simp
qed

text \<open>
  Claim C6 at a list of two records. In \<open>ringState\<close> the list is 16, 32, linked in both
  directions. Starting the record at 16 again should unlink it and append it, which gives the
  list 32, 16. The source sets the head to null instead of unlinking (\<open>pt->next\<close> and
  \<open>pt->prev\<close> are equal in a list of two), so the call returns with the list 16: the
  record at 32 is still flagged as scheduled and is no longer in the list.
\<close>

theorem rearm_in_list_of_two_drops_other:
  "listedTimers 3 ringState = [16, 32]
   \<and> link ringState 16 32 \<and> link ringState 32 16 \<and> scheduled ringState 16
   \<and> gtimerStart 9 (\<lambda>ms. ms) 0 16 7 0 False 100 ringState = Some orphanState
   \<and> listedTimers 3 orphanState = [16]
   \<and> listedTimers 3 orphanState \<noteq> remove1 16 (listedTimers 3 ringState) @ [16]
   \<and> pTimerHead orphanState = 16 \<and> link orphanState 16 16
   \<and> scheduled orphanState 32"
proof -
  have "listedTimers 3 ringState = [16, 32]"
    by (simp add: ringState_def listedTimers_def numeral_3_eq_3 deref_def)
  moreover have "link ringState 16 32" "link ringState 32 16" "scheduled ringState 16"
    by (simp_all add: ringState_def link_def scheduled_def flagsAt_def deref_def
        GTIMER_FLG_SCHEDULED_def)
  moreover have "pTimerHead orphanState = 16" "link orphanState 16 16"
    by (simp_all add: orphanState_def link_def deref_def)
  moreover have "listedTimers 3 orphanState = [16]"
    by (simp add: orphanState_def listedTimers_def numeral_3_eq_3 deref_def)
  moreover have "scheduled orphanState 32"
    by (simp add: orphanState_def scheduled_def flagsAt_def deref_def GTIMER_FLG_SCHEDULED_def)
  ultimately show ?thesis
    using rearm_ringState by simp
qed

subsection \<open>Stopping a record whose links are stale\<close>

lemma walk_numeral:
  "walk (numeral n) s p =
     (case deref s p of
        None \<Rightarrow> []
      | Some t \<Rightarrow> p # (if next' t = pTimerHead s then [] else walk (pred_numeral n) s (next' t)))"
  by (simp add: numeral_eq_Suc)

lemma rearmFirst_eq: "rearmFirst = Some orphanState"
  by (simp add: rearmFirst_def startTwo_eq rearm_ringState)

lemma staleLinks_eq: "staleLinks = Some staleState"
  unfolding staleLinks_def rearmFirst_eq orphanState_def staleState_def
  by (simp add: gtimerStart_unfold gtimerStop_def fun_upd_twist)

lemma gtimerStop_staleState: "gtimerStop 16 staleState = Some staleStopped"
  unfolding staleState_def staleStopped_def
  by (simp add: gtimerStop_def modify_def deref_def GTIMER_FLG_SCHEDULED_def fun_upd_twist)

text \<open>
  Claim C7 at the calls of \<open>staleLinks\<close>. The third call, \<open>gtimerStart\<close> on a scheduled
  record in a list of two, drops the record at 32 from the list with its flag and its
  links left as they were; stopping that record later writes through those links into
  the record at 16, whose \<open>prev\<close> from then on points to itself. In the state reached the
  record at 16 has \<open>GTIMER_FLG_SCHEDULED\<close> set and is in the list 48, 16, 32.
  \<open>gtimerStop\<close> on it clears its flags, so that \<open>gtimerIsActive\<close> returns FALSE, but
  \<open>pt->prev->next = pt->next\<close> writes into the record itself: the record at 48 still
  points to it, and the list is 48, 16, 32 as before, where the claim has the record
  removed from the list.
\<close>

theorem gtimerStop_leaves_record_listed:
  "staleLinks = Some staleState
   \<and> scheduled staleState 16 \<and> listedTimers 4 staleState = [48, 16, 32]
   \<and> gtimerStop 16 staleState = Some staleStopped
   \<and> flagsAt staleStopped 16 = Some 0 \<and> gtimerIsActive 16 staleStopped = Some False
   \<and> listedTimers 4 staleStopped = [48, 16, 32]
   \<and> 16 \<in> set (listedTimers 4 staleStopped)"
proof -
  have "scheduled staleState 16" "listedTimers 4 staleState = [48, 16, 32]"
    by (simp_all add: staleState_def scheduled_def flagsAt_def deref_def listedTimers_def
        GTIMER_FLG_SCHEDULED_def walk_numeral)
  moreover have "flagsAt staleStopped 16 = Some 0" "gtimerIsActive 16 staleStopped = Some False"
    by (simp_all add: staleStopped_def flagsAt_def deref_def gtimerIsActive_def
        GTIMER_FLG_SCHEDULED_def)
  moreover have "listedTimers 4 staleStopped = [48, 16, 32]"
    by (simp add: staleStopped_def deref_def listedTimers_def walk_numeral)
  ultimately show ?thesis
    using staleLinks_eq gtimerStop_staleState by simp
qed

section \<open>Properties of the scheduler\<close>

lemmas sched_unfold =
  step_def gfxThreadCreate_def gfxThreadWait_def waitLoop_def waitCleanup_def
  gfxYield_def gfxThreadExit_def longjmp_current_def gfxAlloc_def gfxFree_def modifyT_def
  derefT_def Qadd_def Qpop_def gosThreadsInit_def gfxThreadMe_def
  FLG_THD_ALLOC_def FLG_THD_DEAD_def FLG_THD_WAIT_def FLG_THD_MAIN_def

lemma steps_numeral:
  "steps (numeral n) s = (case step s of None \<Rightarrow> None | Some s' \<Rightarrow> steps (pred_numeral n) s')"
  by (simp add: numeral_eq_Suc)

subsection \<open>Waiting for oneself\<close>

text \<open>
  Claim C10. \<open>gfxThreadWait\<close> on the handle of the current thread returns -1 at once: the
  caller goes on with the value -1 and nothing else in the state changes. No flag is
  set, no thread block is written, and the ready queue, the dead queue and the current
  thread are as before, so no yield has taken place.
\<close>

theorem gfxThreadWait_self:
  "gfxThreadWait (current s) k s = Some (s\<lparr>run := k (- 1)\<rparr>)
   \<and> (\<forall>s'. gfxThreadWait (gfxThreadMe s) k s = Some s' \<longrightarrow>
         run s' = k (- 1) \<and> threads s' = threads s \<and> readyQ s' = readyQ s \<and>
         deadQ s' = deadQ s \<and> current s' = current s \<and> heap s' = heap s)"
  by (auto simp: gfxThreadWait_def gfxThreadMe_def)

theorem gfxThreadWait_self_witness:
  "gfxThreadWait (gfxThreadMe staticScenario) (\<lambda>r. Return r) staticScenario
     = Some (staticScenario\<lparr>run := Return (- 1)\<rparr>)
   \<and> threads (staticScenario\<lparr>run := Return (- 1)\<rparr>) = threads staticScenario
   \<and> readyQ (staticScenario\<lparr>run := Return (- 1)\<rparr>) = []"
  using gfxThreadWait_self [of staticScenario "\<lambda>r. Return r"]
  by (simp add: gfxThreadMe_def staticScenario_def gosThreadsInit_def)

subsection \<open>Creating a thread\<close>

lemma gfxThreadCreate_caller:
  assumes "stackarea \<noteq> 0" and "sizeof_thread s + 64 \<le> stacksz"
  shows "gfxThreadCreate stackarea stacksz prio f p s =
           (stackarea, s\<lparr>threads := (threads s)(stackarea \<mapsto>
                            \<lparr>t_size = stacksz, t_flags = 0, t_fn = Some f, t_param = p,
                             t_cxt = Some Entry\<rparr>),
                          readyQ := Qadd (readyQ s) stackarea\<rparr>)"
  using assms by (simp add: gfxThreadCreate_def)

lemma gfxThreadCreate_dynamic:
  assumes "stackarea = 0 \<or> stacksz < sizeof_thread s + 64"
  shows "gfxThreadCreate stackarea stacksz prio f p s =
           (case heap s of
              [] \<Rightarrow> (0, s)
            | a # r \<Rightarrow>
                if a = 0 then (0, s\<lparr>heap := r\<rparr>)
                else (a, s\<lparr>heap := r,
                            threads := (threads s)(a \<mapsto>
                              \<lparr>t_size = max stacksz (sizeof_thread s + 64), t_flags = FLG_THD_ALLOC,
                               t_fn = Some f, t_param = p, t_cxt = Some Entry\<rparr>),
                            readyQ := Qadd (readyQ s) a\<rparr>))"
  using assms by (auto simp: gfxThreadCreate_def gfxAlloc_def max_def split: list.splits)

text \<open>
  Claim C5. \<open>gfxThreadCreate\<close> returns null exactly when it allocates the stack (no stack
  area was supplied, or the size is below \<open>sizeof(thread) + 64\<close>) and \<open>gfxAlloc\<close> returns
  null. It then leaves the thread blocks, the ready queue, the dead queue and the current
  thread as they were. A call with a size below the minimum is the call with a null stack
  area and the minimum size: the buffer supplied is ignored, and a thread that is created
  has a block from the allocator, of the minimum size, with \<open>FLG_THD_ALLOC\<close> set.
\<close>

theorem gfxThreadCreate_null_iff_alloc_fails:
  assumes "gfxThreadCreate stackarea stacksz prio f p s = (h, s')"
  shows "(h = 0 \<longleftrightarrow>
            (stackarea = 0 \<or> stacksz < sizeof_thread s + 64) \<and>
            fst (gfxAlloc (max stacksz (sizeof_thread s + 64)) s) = 0)
       \<and> (h = 0 \<longrightarrow> threads s' = threads s \<and> readyQ s' = readyQ s \<and> deadQ s' = deadQ s \<and>
                    current s' = current s \<and> run s' = run s)
       \<and> (stacksz < sizeof_thread s + 64 \<longrightarrow>
            gfxThreadCreate stackarea stacksz prio f p s =
              gfxThreadCreate 0 (sizeof_thread s + 64) prio f p s \<and>
            (h \<noteq> 0 \<longrightarrow> h = fst (gfxAlloc (sizeof_thread s + 64) s) \<and>
               (\<exists>t. threads s' h = Some t \<and> t_size t = sizeof_thread s + 64 \<and>
                    t_flags t = FLG_THD_ALLOC)))"
proof (cases "stackarea = 0 \<or> stacksz < sizeof_thread s + 64")
  case True
  have small: "gfxThreadCreate stackarea stacksz prio f p s =
      gfxThreadCreate 0 (sizeof_thread s + 64) prio f p s" if "stacksz < sizeof_thread s + 64"
    using that by (simp add: gfxThreadCreate_def)
  from assms True gfxThreadCreate_dynamic [OF True, of prio f p] small show ?thesis
    by (cases "heap s") (auto simp: gfxAlloc_def max_def split: if_splits)
next
  case False
  with assms gfxThreadCreate_caller [of stackarea s stacksz prio f p] show ?thesis
    by auto
qed

theorem gfxThreadCreate_null_iff_alloc_fails_witness:
  "gfxThreadCreate 512 10 1 worker 5 (gosThreadsInit 16 100 [] (Return 0))
     = (0, gosThreadsInit 16 100 [] (Return 0))
   \<and> (10 :: nat) < sizeof_thread (gosThreadsInit 16 100 [] (Return 0)) + 64
   \<and> fst (gfxAlloc (max 10 (sizeof_thread (gosThreadsInit 16 100 [] (Return 0)) + 64))
            (gosThreadsInit 16 100 [] (Return 0))) = 0
   \<and> gfxThreadCreate 512 10 1 worker 5 (gosThreadsInit 16 100 [] (Return 0))
       = gfxThreadCreate 0 164 1 worker 5 (gosThreadsInit 16 100 [] (Return 0))"
proof -
  have c: "gfxThreadCreate 512 10 1 worker 5 (gosThreadsInit 16 100 [] (Return 0))
     = (0, gosThreadsInit 16 100 [] (Return 0))"
    by (simp add: gfxThreadCreate_def gfxAlloc_def gosThreadsInit_def)
  have z: "sizeof_thread (gosThreadsInit 16 100 [] (Return 0)) = 100"
    by (simp add: gosThreadsInit_def)
  show ?thesis
    using c gfxThreadCreate_null_iff_alloc_fails [OF c] by (simp add: z)
qed

subsection \<open>Caller-supplied stack areas are never freed\<close>

lemma keptBlock_run [simp]: "keptBlock a (s\<lparr>run := c\<rparr>) = keptBlock a s"
  by (simp add: keptBlock_def)

lemma keptBlock_current [simp]: "keptBlock a (s\<lparr>current := c\<rparr>) = keptBlock a s"
  by (simp add: keptBlock_def)

lemma keptBlock_readyQ [simp]: "keptBlock a (s\<lparr>readyQ := q\<rparr>) = keptBlock a s"
  by (simp add: keptBlock_def)

lemma keptBlock_modifyT:
  assumes "modifyT p f s = Some s'" and "\<And>t. t_flags (f t) AND FLG_THD_ALLOC = t_flags t AND FLG_THD_ALLOC"
    and "keptBlock a s"
  shows "keptBlock a s'"
  using assms by (auto simp: modifyT_def derefT_def keptBlock_def split: option.splits if_splits)

lemma keptBlock_gfxFree:
  assumes "gfxFree p s = Some s'" and "p \<noteq> a" and "keptBlock a s"
  shows "keptBlock a s'"
  using assms by (auto simp: gfxFree_def derefT_def keptBlock_def split: option.splits if_splits)

lemma keptBlock_freeDead:
  assumes "freeDead q s = Some s'" and "a \<notin> set q" and "keptBlock a (s\<lparr>deadQ := q\<rparr>)"
  shows "keptBlock a s'"
  using assms
proof (induction q arbitrary: s)
  case Nil
  then show ?case by (auto simp: keptBlock_def)
next
  case (Cons t q)
  show ?case
  proof (cases "t = 0")
    case True
    with Cons.prems show ?thesis by (auto simp: keptBlock_def)
  next
    case False
    with Cons.prems obtain s1 where f: "gfxFree t (s\<lparr>deadQ := q, current := t\<rparr>) = Some s1"
      and r: "freeDead q s1 = Some s'"
      by (auto simp: bind_eq_Some_conv)
    have "keptBlock a (s\<lparr>deadQ := q, current := t\<rparr>)"
      using Cons.prems(2,3) by (simp add: keptBlock_def)
    from keptBlock_gfxFree [OF f _ this] Cons.prems(2) have k1: "keptBlock a s1" by simp
    have "deadQ s1 = q" using f by (auto simp: gfxFree_def split: option.splits)
    then have "s1\<lparr>deadQ := q\<rparr> = s1" by simp
    with k1 have "keptBlock a (s1\<lparr>deadQ := q\<rparr>)" by simp
    from Cons.IH [OF r _ this] Cons.prems(2) show ?thesis by simp
  qed
qed

lemma keptBlock_longjmp:
  "longjmp_current s = Some s' \<Longrightarrow> keptBlock a s \<Longrightarrow> keptBlock a s'"
  by (auto simp: longjmp_current_def bind_eq_Some_conv)

lemma keptBlock_gfxYield:
  assumes "gfxYield k s = Some s'" and "keptBlock a s"
  shows "keptBlock a s'"
proof -
  from assms(1) obtain s1 s2 t q where
    m: "modifyT (current s) (\<lambda>t. t\<lparr>t_cxt := Some k\<rparr>) s = Some s1"
    and f: "freeDead (deadQ (s1\<lparr>readyQ := Qadd (readyQ s1) (current s1)\<rparr>))
              (s1\<lparr>readyQ := Qadd (readyQ s1) (current s1)\<rparr>) = Some s2"
    and l: "longjmp_current (s2\<lparr>current := t, readyQ := q\<rparr>) = Some s'"
    by (auto simp: gfxYield_def bind_eq_Some_conv Let_def case_prod_beta)
  have k1: "keptBlock a s1"
    by (rule keptBlock_modifyT [OF m _ assms(2)]) simp
  then have "a \<notin> set (deadQ s1)" by (simp add: keptBlock_def)
  with k1 keptBlock_freeDead [OF f, of a] have "keptBlock a s2" by simp
  with keptBlock_longjmp [OF l, of a] show ?thesis by simp
qed

lemma flag_keep:
  "(f OR FLG_THD_DEAD) AND FLG_THD_ALLOC = f AND FLG_THD_ALLOC"
  "(f OR FLG_THD_WAIT) AND FLG_THD_ALLOC = f AND FLG_THD_ALLOC"
  "(f AND NOT FLG_THD_WAIT) AND FLG_THD_ALLOC = f AND FLG_THD_ALLOC"
  by (simp_all add: FLG_THD_DEAD_def FLG_THD_WAIT_def FLG_THD_ALLOC_def word_ao_dist word_bw_assocs)

lemma alloc_mask:
  "f AND FLG_THD_ALLOC = 0 \<Longrightarrow> f AND (FLG_THD_ALLOC OR FLG_THD_WAIT) \<noteq> FLG_THD_ALLOC"
  by (metis FLG_THD_ALLOC_def and.assoc and.idem word_ao_absorbs(4) zero_neq_one word_bw_comms(1))


lemma keptBlock_gfxThreadExit:
  assumes "gfxThreadExit r s = Some s'" and "keptBlock a s"
  shows "keptBlock a s'"
proof -
  from assms(1) obtain s1 s2 t where
    m1: "modifyT (current s) (\<lambda>t. t\<lparr>t_param := r\<rparr>) s = Some s1"
    and m2: "modifyT (current s1) (\<lambda>t. t\<lparr>t_flags := t_flags t OR FLG_THD_DEAD\<rparr>) s1 = Some s2"
    and d: "derefT s2 (current s2) = Some t"
    and l: "longjmp_current
              ((if t_flags t AND (FLG_THD_ALLOC OR FLG_THD_WAIT) = FLG_THD_ALLOC
                then s2\<lparr>deadQ := Qadd (deadQ s2) (current s2)\<rparr> else s2)
               \<lparr>current := fst (Qpop (readyQ s2)), readyQ := snd (Qpop (readyQ s2))\<rparr>) = Some s'"
    by (auto simp: gfxThreadExit_def bind_eq_Some_conv Let_def case_prod_beta split: if_splits)
  have k1: "keptBlock a s1"
    by (rule keptBlock_modifyT [OF m1 _ assms(2)]) simp
  have k2: "keptBlock a s2"
    by (rule keptBlock_modifyT [OF m2 _ k1]) (simp add: flag_keep)
  have "keptBlock a (if t_flags t AND (FLG_THD_ALLOC OR FLG_THD_WAIT) = FLG_THD_ALLOC
                then s2\<lparr>deadQ := Qadd (deadQ s2) (current s2)\<rparr> else s2)"
  proof (cases "current s2 = a")
    case True
    with d k2 have "t_flags t AND FLG_THD_ALLOC = 0"
      by (auto simp: keptBlock_def derefT_def split: if_splits option.splits)
    then have "t_flags t AND (FLG_THD_ALLOC OR FLG_THD_WAIT) \<noteq> FLG_THD_ALLOC"
      by (rule alloc_mask)
    with k2 show ?thesis by simp
  next
    case False
    with k2 show ?thesis by (auto simp: keptBlock_def Qadd_def)
  qed
  with keptBlock_longjmp [OF l, of a] show ?thesis by simp
qed

lemma keptBlock_waitCleanup:
  assumes "waitCleanup th s = Some s'" and "keptBlock a s"
  shows "keptBlock a s'"
proof -
  from assms(1) obtain s1 t where
    m: "modifyT th (\<lambda>t. t\<lparr>t_flags := t_flags t AND NOT FLG_THD_WAIT\<rparr>) s = Some s1"
    and d: "derefT s1 th = Some t"
    and f: "(if t_flags t AND FLG_THD_ALLOC \<noteq> 0 then gfxFree th s1 else Some s1) = Some s'"
    by (auto simp: waitCleanup_def bind_eq_Some_conv)
  have k1: "keptBlock a s1"
    by (rule keptBlock_modifyT [OF m _ assms(2)]) (simp add: flag_keep)
  show ?thesis
  proof (cases "t_flags t AND FLG_THD_ALLOC \<noteq> 0")
    case True
    with d k1 have "th \<noteq> a"
      by (auto simp: keptBlock_def derefT_def split: if_splits option.splits)
    with True f k1 show ?thesis by (auto intro: keptBlock_gfxFree)
  next
    case False
    with f k1 show ?thesis by simp
  qed
qed

lemma keptBlock_waitLoop:
  assumes "waitLoop th k s = Some s'" and "keptBlock a s"
  shows "keptBlock a s'"
  using assms
  by (auto simp: waitLoop_def bind_eq_Some_conv split: if_splits
      dest: keptBlock_gfxYield keptBlock_waitCleanup)

lemma keptBlock_gfxThreadWait:
  assumes "gfxThreadWait th k s = Some s'" and "keptBlock a s"
  shows "keptBlock a s'"
proof (cases "th = current s")
  case True
  with assms show ?thesis by (auto simp: gfxThreadWait_def)
next
  case False
  with assms(1) obtain s1 where
    m: "modifyT th (\<lambda>t. t\<lparr>t_flags := t_flags t OR FLG_THD_WAIT\<rparr>) s = Some s1"
    and w: "waitLoop th k s1 = Some s'"
    by (auto simp: gfxThreadWait_def bind_eq_Some_conv)
  have "keptBlock a s1"
    by (rule keptBlock_modifyT [OF m _ assms(2)]) (simp add: flag_keep)
  then show ?thesis by (rule keptBlock_waitLoop [OF w])
qed

lemma keptBlock_gfxThreadCreate:
  assumes "gfxThreadCreate stackarea stacksz prio f p s = (h, s')" and "keptBlock a s"
  shows "keptBlock a s'"
proof (cases "stackarea = 0 \<or> stacksz < sizeof_thread s + 64")
  case True
  from assms gfxThreadCreate_dynamic [OF True, of prio f p] show ?thesis
    by (auto simp: keptBlock_def split: list.splits if_splits)
next
  case False
  with assms gfxThreadCreate_caller [of stackarea s stacksz prio f p] show ?thesis
    by (auto simp: keptBlock_def)
qed

lemma keptBlock_step:
  assumes "step s = Some s'" and "keptBlock a s"
  shows "keptBlock a s'"
proof (cases "run s")
  case (Create sa sz pr f p k)
  obtain h s1 where c: "gfxThreadCreate sa sz pr f p s = (h, s1)" by force
  with assms(1) Create have "s' = s1\<lparr>run := k h\<rparr>" by (simp add: step_def)
  with keptBlock_gfxThreadCreate [OF c assms(2)] show ?thesis by simp
qed (use assms in \<open>auto simp: step_def bind_eq_Some_conv dest: keptBlock_gfxThreadExit
      keptBlock_gfxYield keptBlock_gfxThreadWait keptBlock_waitLoop\<close>)

lemma keptBlock_steps:
  assumes "steps n s = Some s'" and "keptBlock a s"
  shows "keptBlock a s'"
  using assms
  by (induction n arbitrary: s) (auto split: option.splits dest: keptBlock_step)

text \<open>
  Claim C9. A thread created with a non-null stack area of at least the minimum size, in
  storage that the caller owns (it is neither in the allocator's pool nor queued for
  reclamation when the thread is created), has the stack area as its handle and its flags
  clear. Whatever the threads do from then on (any number of steps of the system that the
  code defines), the block stays in place with \<open>FLG_THD_ALLOC\<close> clear, it never enters the
  dead queue, and it is never given to the allocator: neither the reclamation in
  \<open>gfxYield\<close>, nor \<open>gfxThreadExit\<close>, nor \<open>gfxThreadWait\<close> frees it. \<open>gfxThreadWait\<close>
  calls \<open>gfxFree\<close> only on a block with \<open>FLG_THD_ALLOC\<close> set, and \<open>gfxThreadExit\<close>
  queues only such blocks for \<open>gfxYield\<close> to free.
\<close>

theorem caller_stack_never_freed:
  assumes "stackarea \<noteq> 0" and "sizeof_thread s + 64 \<le> stacksz"
    and "stackarea \<notin> set (deadQ s)" and "stackarea \<notin> set (heap s)"
    and "gfxThreadCreate stackarea stacksz prio f p s = (h, s1)"
    and "steps n (s1\<lparr>run := c\<rparr>) = Some s2"
  shows "h = stackarea \<and> map_option t_flags (threads s1 stackarea) = Some 0
       \<and> (\<exists>t. threads s2 stackarea = Some t \<and> t_flags t AND FLG_THD_ALLOC = 0)
       \<and> stackarea \<notin> set (deadQ s2) \<and> stackarea \<notin> set (heap s2)"
proof -
  let ?s1 = "s\<lparr>threads := (threads s)(stackarea \<mapsto>
                            \<lparr>t_size = stacksz, t_flags = 0, t_fn = Some f, t_param = p,
                             t_cxt = Some Entry\<rparr>),
                          readyQ := Qadd (readyQ s) stackarea\<rparr>"
  have "(h, s1) = gfxThreadCreate stackarea stacksz prio f p s"
    by (rule assms(5) [symmetric])
  also have "\<dots> = (stackarea, ?s1)"
    by (rule gfxThreadCreate_caller [OF assms(1,2)])
  finally have h: "h = stackarea" and s1: "s1 = ?s1"
    by simp_all
  have "keptBlock stackarea (s1\<lparr>run := c\<rparr>)"
    using assms(3,4) by (simp add: s1 keptBlock_def)
  from keptBlock_steps [OF assms(6) this] have "keptBlock stackarea s2" .
  then show ?thesis
    using h by (auto simp: s1 keptBlock_def split: option.splits)
qed

theorem caller_stack_never_freed_witness:
  "(512 :: addr) \<noteq> 0 \<and> sizeof_thread staticScenario + 64 \<le> 1000
   \<and> 512 \<notin> set (deadQ staticScenario) \<and> 512 \<notin> set (heap staticScenario)
   \<and> fst (gfxThreadCreate 512 1000 1 worker 5 staticScenario) = 512
   \<and> (\<exists>s2. steps 4 (snd (gfxThreadCreate 512 1000 1 worker 5 staticScenario)
                      \<lparr>run := Wait 512 (\<lambda>r. Return r)\<rparr>) = Some s2
          \<and> run s2 = Return 7
          \<and> (\<exists>t. threads s2 512 = Some t \<and> t_flags t AND FLG_THD_ALLOC = 0)
          \<and> 512 \<notin> set (deadQ s2) \<and> 512 \<notin> set (heap s2))"
proof -
  obtain h s1 where c: "gfxThreadCreate 512 1000 1 worker 5 staticScenario = (h, s1)"
    by force
  have a: "(512 :: addr) \<noteq> 0" "sizeof_thread staticScenario + 64 \<le> 1000"
    "512 \<notin> set (deadQ staticScenario)" "512 \<notin> set (heap staticScenario)"
    by (simp_all add: staticScenario_def gosThreadsInit_def)
  have "\<exists>s2. steps 4 (snd (gfxThreadCreate 512 1000 1 worker 5 staticScenario)
                      \<lparr>run := Wait 512 (\<lambda>r. Return r)\<rparr>) = Some s2 \<and> run s2 = Return 7"
    by (simp add: steps_numeral staticScenario_def mainProg_def worker_def sched_unfold)
  then obtain s2 where r: "steps 4 (s1\<lparr>run := Wait 512 (\<lambda>r. Return r)\<rparr>) = Some s2"
    and v: "run s2 = Return 7"
    by (auto simp: c)
  from caller_stack_never_freed [OF a c r]
  have k: "h = 512" "\<exists>t. threads s2 512 = Some t \<and> t_flags t AND FLG_THD_ALLOC = 0"
    "512 \<notin> set (deadQ s2)" "512 \<notin> set (heap s2)"
    by simp_all
  have "\<exists>s2. steps 4 (s1\<lparr>run := Wait 512 (\<lambda>r. Return r)\<rparr>) = Some s2
          \<and> run s2 = Return 7
          \<and> (\<exists>t. threads s2 512 = Some t \<and> t_flags t AND FLG_THD_ALLOC = 0)
          \<and> 512 \<notin> set (deadQ s2) \<and> 512 \<notin> set (heap s2)"
    using r v k by blast
  then show ?thesis
    using a k(1) by (simp add: c)
qed

subsection \<open>The value returned by \<open>gfxThreadWait\<close>\<close>

text \<open>
  Where the thread waited for has a caller-supplied stack, \<open>gfxThreadWait\<close> returns the
  value stored by \<open>gfxThreadExit\<close>: once the thread is dead, the loop ends, the wait flag is
  cleared and the caller goes on with \<open>t->param\<close>.
\<close>

lemma waitLoop_dead_caller_stack:
  assumes "derefT s th = Some t" and "t_flags t AND FLG_THD_DEAD \<noteq> 0"
    and "t_flags t AND FLG_THD_ALLOC = 0"
  shows "waitLoop th k s =
           Some (s\<lparr>threads := (threads s)(th \<mapsto> t\<lparr>t_flags := t_flags t AND NOT FLG_THD_WAIT\<rparr>),
                   run := k (t_param t)\<rparr>)"
  using assms
  by (auto simp: waitLoop_def waitCleanup_def modifyT_def derefT_def flag_keep split: if_splits)

lemma gfxThreadExit_stores_result:
  assumes "gfxThreadExit r s = Some s'"
  shows "\<exists>t. threads s' (current s) = Some t \<and> t_param t = r \<and> t_flags t AND FLG_THD_DEAD \<noteq> 0"
  using assms
  by (auto simp: gfxThreadExit_def longjmp_current_def modifyT_def derefT_def bind_eq_Some_conv
      Let_def case_prod_beta FLG_THD_DEAD_def word_ao_absorbs split: if_splits option.splits)

text \<open>
  Claim C3 at a thread whose stack \<open>gfxThreadCreate\<close> allocated. After four steps of
  \<open>dynScenario\<close> the worker has exited with the value 7 (its block at 4096 holds 7 in
  \<open>param\<close>, with the flags allocated, dead and waited-for), and the main thread is back
  in the loop of \<open>gfxThreadWait\<close>. The clean-up then frees the block (it is gone from the
  store and back in the pool), and the \<open>return (threadreturn_t)t->param\<close> that follows
  reads the freed block: the step has no defined result, where the claim has the call
  return 7.
\<close>

theorem gfxThreadWait_reads_freed_block:
  "\<exists>s. steps 4 dynScenario = Some s
      \<and> run s = InWait 4096 (\<lambda>r. Return r) \<and> current s = 16
      \<and> map_option t_param (threads s 4096) = Some 7
      \<and> map_option t_flags (threads s 4096) = Some (FLG_THD_ALLOC OR FLG_THD_DEAD OR FLG_THD_WAIT)
      \<and> (\<exists>s'. waitCleanup 4096 s = Some s' \<and> threads s' 4096 = None \<and> heap s' = [4096]
              \<and> derefT s' 4096 = None)
      \<and> waitLoop 4096 (\<lambda>r. Return r) s = None
      \<and> step s = None"
  by (simp add: steps_numeral dynScenario_def mainProg_def worker_def sched_unfold)

end
